theory Spec2Isabelle
  imports Complex_Main
begin

section \<open>Data model\<close>

text \<open>
  The reconciliation engine is the Swift class \<open>EbookProgressSyncManager\<close> together
  with the \<open>LocalMediaProgress\<close> extension. Swift \<open>Double\<close> values (reading fraction,
  millisecond timestamps, delays) are modelled as reals: the comparisons and the powers
  of two used here are exact on the values involved, and NaN is not modelled.
  Swift \<open>String?\<close> is \<open>string option\<close>.
\<close>

record ServerConnectionConfig =
  scc_id :: string

record LocalMediaProgress =
  lmp_id :: string
  localLibraryItemId :: string
  serverConnectionConfigId :: "string option"
  ebookLocation :: "string option"
  ebookProgress :: real
  lastUpdate :: real
  isFinished :: bool
  lastServerSync :: "real option"

record MediaProgress =
  mp_libraryItemId :: string
  mp_ebookLocation :: "string option"
  mp_ebookProgress :: real
  mp_lastUpdate :: real
  mp_isFinished :: bool

record LocalLibraryItem =
  libraryItemId :: "string option"

text \<open>The dictionary \<open>progressData\<close> that \<open>sendProgressToServer\<close> patches to the server.\<close>

record ProgressData =
  pd_ebookLocation :: string
  pd_ebookProgress :: real
  pd_lastUpdate :: real
  pd_isFinished :: bool

datatype EbookSyncError = noServerConfig | noNetwork | progressNotFound | syncFailed

text \<open>Everything a \<open>throws\<close> function of the manager can throw.\<close>

datatype sync_exn = SyncError EbookSyncError | RealmError | ApiError string

text \<open>One constructor per \<open>logger\<close> call of the modelled functions.\<close>

datatype logmsg =
    MaxRetryReached string
  | SyncingItem string nat
  | NoServerLibraryItemId string
  | SuccessfullySynced string
  | FailedWillRetry string
  | ErrorSyncing string sync_exn
  | FailedGetServerItemId sync_exn
  | LocalFurtherUsingLocal real real
  | ServerFurtherUpdatingLocal real real
  | EqualLocalMoreRecentUsingLocal
  | EqualServerMoreRecentUsingServer
  | FoundPending nat
  | FailedGetPending sync_exn
  | SyncAlreadyInProgress
  | NoNetworkForSync
  | NoServerConfiguration
  | NoServerConfigBackground
  | NoNetworkBackground
  | BackgroundFound nat
  | BackgroundCompleted nat nat
  | BackgroundError sync_exn
  | QuickFound nat
  | QuickError sync_exn
  | FailedCheckPending sync_exn

text \<open>
  The observable effects, in the order they happen: log lines, \<open>Task.sleep\<close>, the two
  transport calls (\<open>ApiClient.getResource\<close> and \<open>ApiClient.patchResource\<close> on
  \<open>api/me/progress/<id>\<close>) and the two Realm writes.
\<close>

datatype event =
    Log logmsg
  | TaskSleep real
  | ApiGet string
  | ApiPatch string ProgressData
  | WriteFromServer string MediaProgress
  | WriteLastServerSync string real

text \<open>
  The state the manager reads and writes: the Realm tables, \<open>Store.serverConfig\<close>, the
  dictionary \<open>retryAttempts\<close>, the flag \<open>isCurrentlySyncing\<close>, and the trace of
  effects so far. Realm results are lists (the order of the table); \<open>lmp_id\<close> is the
  primary key of a \<open>LocalMediaProgress\<close>, and a Realm write through an object
  reference is a write to the rows with that key.
\<close>

record sync_state =
  realm_progress :: "LocalMediaProgress list"
  realm_items :: "string \<rightharpoonup> LocalLibraryItem"
  serverConfig :: "ServerConnectionConfig option"
  retryAttempts :: "string \<rightharpoonup> nat"
  isCurrentlySyncing :: bool
  trace :: "event list"

text \<open>
  The collaborators, as an oracle for one pass: connectivity, whether \<open>try Realm()\<close>
  and \<open>realm.write\<close> succeed, what the server answers, and the clock
  (\<open>Date().timeIntervalSince1970 * 1000\<close>).
\<close>

datatype get_result = GetSuccess MediaProgress | GetFailure "string option"

datatype patch_result = PatchSuccess bool | PatchFailure

record world =
  isConnectedToInternet :: bool
  realmOpens :: bool
  realmWrites :: bool
  getResource :: "string \<Rightarrow> get_result"
  patchResource :: "string \<Rightarrow> ProgressData \<Rightarrow> patch_result"
  dateNow :: real

section \<open>Sync configuration\<close>

definition maxRetryAttempts :: nat where
  "maxRetryAttempts = 5"

definition baseRetryDelay :: real where
  "baseRetryDelay = 2"

definition calculateRetryDelay :: "nat \<Rightarrow> real" where
  "calculateRetryDelay attempt = 2 ^ attempt * baseRetryDelay"

section \<open>The per-item pipeline\<close>

text \<open>Appending one effect to the trace.\<close>

definition emit :: "event \<Rightarrow> sync_state \<Rightarrow> sync_state" where
  "emit e s = s\<lparr>trace := trace s @ [e]\<rparr>"

definition isNetworkAvailable :: "world \<Rightarrow> bool" where
  "isNetworkAvailable w = isConnectedToInternet w"

definition getServerLibraryItemId ::
  "world \<Rightarrow> LocalMediaProgress \<Rightarrow> sync_state \<Rightarrow> string option \<times> sync_state" where
  "getServerLibraryItemId w progress s =
     (if realmOpens w then
        (case realm_items s (localLibraryItemId progress) of
           None \<Rightarrow> (None, s)
         | Some localItem \<Rightarrow> (libraryItemId localItem, s))
      else (None, emit (Log (FailedGetServerItemId RealmError)) s))"

definition fetchServerProgress ::
  "world \<Rightarrow> string \<Rightarrow> sync_state \<Rightarrow> (sync_exn + MediaProgress option) \<times> sync_state" where
  "fetchServerProgress w lib s =
     (case getResource w lib of
        GetSuccess progress \<Rightarrow> (Inr (Some progress), emit (ApiGet lib) s)
      | GetFailure (Some err) \<Rightarrow> (Inl (ApiError err), emit (ApiGet lib) s)
      | GetFailure None \<Rightarrow> (Inr None, emit (ApiGet lib) s))"

text \<open>
  Modelled from the spec: \<open>LocalMediaProgress.updateFromServerMediaProgress\<close> is a
  method of the repository that is not among the sources. The spec says that the server's
  location, progress fraction and finished flag are applied onto the local record and
  that its last-update timestamp becomes the server's.
\<close>

definition updateFromServerMediaProgress ::
  "MediaProgress \<Rightarrow> LocalMediaProgress \<Rightarrow> LocalMediaProgress" where
  "updateFromServerMediaProgress serverProgress localProgress =
     localProgress\<lparr>ebookLocation := mp_ebookLocation serverProgress,
                    ebookProgress := mp_ebookProgress serverProgress,
                    isFinished := mp_isFinished serverProgress,
                    lastUpdate := mp_lastUpdate serverProgress\<rparr>"

text \<open>
  A \<open>realm.write\<close> through the object reference with primary key \<open>key\<close>.
\<close>

definition writeProgress ::
  "string \<Rightarrow> (LocalMediaProgress \<Rightarrow> LocalMediaProgress) \<Rightarrow> sync_state \<Rightarrow> sync_state" where
  "writeProgress key f s =
     s\<lparr>realm_progress := map (\<lambda>r. if lmp_id r = key then f r else r) (realm_progress s)\<rparr>"

definition updateLocalProgressFromServer ::
  "world \<Rightarrow> LocalMediaProgress \<Rightarrow> MediaProgress \<Rightarrow> sync_state
     \<Rightarrow> (sync_exn + LocalMediaProgress) \<times> sync_state" where
  "updateLocalProgressFromServer w localProgress serverProgress s =
     (if realmOpens w \<and> realmWrites w then
        (Inr (updateFromServerMediaProgress serverProgress localProgress),
         emit (WriteFromServer (lmp_id localProgress) serverProgress)
           (writeProgress (lmp_id localProgress)
              (updateFromServerMediaProgress serverProgress) s))
      else (Inl RealmError, s))"

definition resolveProgressConflicts ::
  "world \<Rightarrow> LocalMediaProgress \<Rightarrow> string \<Rightarrow> sync_state
     \<Rightarrow> (sync_exn + LocalMediaProgress) \<times> sync_state" where
  "resolveProgressConflicts w localProgress serverLibraryItemId s =
     (case fetchServerProgress w serverLibraryItemId s of
        (Inl err, s1) \<Rightarrow> (Inl err, s1)
      | (Inr None, s1) \<Rightarrow> (Inr localProgress, s1)
      | (Inr (Some serverProgress), s1) \<Rightarrow>
          (if ebookProgress localProgress > mp_ebookProgress serverProgress then
             (Inr localProgress,
              emit (Log (LocalFurtherUsingLocal (ebookProgress localProgress)
                           (mp_ebookProgress serverProgress))) s1)
           else if mp_ebookProgress serverProgress > ebookProgress localProgress then
             updateLocalProgressFromServer w localProgress serverProgress
               (emit (Log (ServerFurtherUpdatingLocal (mp_ebookProgress serverProgress)
                             (ebookProgress localProgress))) s1)
           else if lastUpdate localProgress > mp_lastUpdate serverProgress then
             (Inr localProgress, emit (Log EqualLocalMoreRecentUsingLocal) s1)
           else
             updateLocalProgressFromServer w localProgress serverProgress
               (emit (Log EqualServerMoreRecentUsingServer) s1)))"

text \<open>
  The dictionary built at the start of \<open>sendProgressToServer\<close>
  (\<open>progress.ebookLocation ?? ""\<close> for the location).
\<close>

definition progressDataOf :: "LocalMediaProgress \<Rightarrow> ProgressData" where
  "progressDataOf progress =
     \<lparr>pd_ebookLocation = (case ebookLocation progress of None \<Rightarrow> '''' | Some l \<Rightarrow> l),
      pd_ebookProgress = ebookProgress progress,
      pd_lastUpdate = lastUpdate progress,
      pd_isFinished = isFinished progress\<rparr>"

definition sendProgressToServer ::
  "world \<Rightarrow> LocalMediaProgress \<Rightarrow> string \<Rightarrow> sync_state \<Rightarrow> bool \<times> sync_state" where
  "sendProgressToServer w progress serverLibraryItemId s =
     (case patchResource w serverLibraryItemId (progressDataOf progress) of
        PatchSuccess success \<Rightarrow>
          (success, emit (ApiPatch serverLibraryItemId (progressDataOf progress)) s)
      | PatchFailure \<Rightarrow>
          (False, emit (ApiPatch serverLibraryItemId (progressDataOf progress)) s))"

definition markProgressAsSynced ::
  "world \<Rightarrow> LocalMediaProgress \<Rightarrow> sync_state \<Rightarrow> (sync_exn + unit) \<times> sync_state" where
  "markProgressAsSynced w progress s =
     (if realmOpens w \<and> realmWrites w then
        (Inr (),
         emit (WriteLastServerSync (lmp_id progress) (dateNow w))
           (writeProgress (lmp_id progress) (\<lambda>r. r\<lparr>lastServerSync := Some (dateNow w)\<rparr>) s))
      else (Inl RealmError, s))"

text \<open>\<open>retryAttempts[progressId] ?? 0\<close>.\<close>

definition currentRetriesOf :: "sync_state \<Rightarrow> string \<Rightarrow> nat" where
  "currentRetriesOf s progressId =
     (case retryAttempts s progressId of None \<Rightarrow> 0 | Some n \<Rightarrow> n)"

text \<open>
  \<open>retryAttempts[progressId] = currentRetries + 1\<close> followed by the error log line:
  the \<open>else\<close> branch of \<open>if success\<close> and the \<open>catch\<close> block of
  \<open>syncProgressItem\<close>.
\<close>

definition noteFailure :: "string \<Rightarrow> nat \<Rightarrow> logmsg \<Rightarrow> sync_state \<Rightarrow> sync_state" where
  "noteFailure progressId currentRetries msg s =
     emit (Log msg) (s\<lparr>retryAttempts := (retryAttempts s)(progressId \<mapsto> currentRetries + 1)\<rparr>)"

text \<open>
  The \<open>do\<close> block of \<open>syncProgressItem\<close> once the server library item id is
  known: resolve, send, and on success mark as synced and drop the retry entry. An error
  thrown by \<open>resolveProgressConflicts\<close> or \<open>markProgressAsSynced\<close> lands in the
  \<open>catch\<close> block.
\<close>

definition attemptSync ::
  "world \<Rightarrow> LocalMediaProgress \<Rightarrow> nat \<Rightarrow> string \<Rightarrow> sync_state \<Rightarrow> sync_state" where
  "attemptSync w progress currentRetries serverLibraryItemId s =
     (case resolveProgressConflicts w progress serverLibraryItemId s of
        (Inl err, s1) \<Rightarrow>
          noteFailure (lmp_id progress) currentRetries (ErrorSyncing (lmp_id progress) err) s1
      | (Inr resolvedProgress, s1) \<Rightarrow>
          (case sendProgressToServer w resolvedProgress serverLibraryItemId s1 of
             (True, s2) \<Rightarrow>
               (case markProgressAsSynced w progress s2 of
                  (Inl err, s3) \<Rightarrow>
                    noteFailure (lmp_id progress) currentRetries
                      (ErrorSyncing (lmp_id progress) err) s3
                | (Inr u, s3) \<Rightarrow>
                    emit (Log (SuccessfullySynced serverLibraryItemId))
                      (s3\<lparr>retryAttempts := (retryAttempts s3)(lmp_id progress := None)\<rparr>))
           | (False, s2) \<Rightarrow>
               noteFailure (lmp_id progress) currentRetries
                 (FailedWillRetry (lmp_id progress)) s2))"

text \<open>
  \<open>syncProgressItem\<close>: give up and forget the retry entry once \<open>maxRetryAttempts\<close>
  is reached; otherwise sleep for the backoff delay when this is a retry, log the attempt
  number, look the server item up and run the attempt.
\<close>

definition syncProgressItem :: "world \<Rightarrow> LocalMediaProgress \<Rightarrow> sync_state \<Rightarrow> sync_state" where
  "syncProgressItem w progress s =
     (if currentRetriesOf s (lmp_id progress) \<ge> maxRetryAttempts then
        emit (Log (MaxRetryReached (lmp_id progress)))
          (s\<lparr>retryAttempts := (retryAttempts s)(lmp_id progress := None)\<rparr>)
      else
        (case getServerLibraryItemId w progress
                (emit (Log (SyncingItem (localLibraryItemId progress)
                              (currentRetriesOf s (lmp_id progress) + 1)))
                   (if currentRetriesOf s (lmp_id progress) > 0
                    then emit (TaskSleep (calculateRetryDelay
                                 (currentRetriesOf s (lmp_id progress)))) s
                    else s)) of
           (None, s1) \<Rightarrow> emit (Log (NoServerLibraryItemId (lmp_id progress))) s1
         | (Some serverLibraryItemId, s1) \<Rightarrow>
             attemptSync w progress (currentRetriesOf s (lmp_id progress))
               serverLibraryItemId s1))"

section \<open>Listing the records to sync\<close>

text \<open>The Realm predicate \<open>lastServerSync == nil OR lastUpdate > lastServerSync\<close>.\<close>

definition pendingPredicate :: "LocalMediaProgress \<Rightarrow> bool" where
  "pendingPredicate r = (case lastServerSync r of None \<Rightarrow> True | Some t \<Rightarrow> lastUpdate r > t)"

definition getPendingProgressItems ::
  "world \<Rightarrow> string \<Rightarrow> sync_state \<Rightarrow> sync_exn + LocalMediaProgress list" where
  "getPendingProgressItems w serverConfigId s =
     (if realmOpens w then
        Inr (filter pendingPredicate
               (filter (\<lambda>r. serverConnectionConfigId r = Some serverConfigId \<and>
                            ebookLocation r \<noteq> None \<and> ebookLocation r \<noteq> Some '''')
                  (realm_progress s)))
      else Inl RealmError)"

definition getRecentlyUpdatedItems ::
  "world \<Rightarrow> string \<Rightarrow> sync_state \<Rightarrow> sync_exn + LocalMediaProgress list" where
  "getRecentlyUpdatedItems w serverConfigId s =
     (if realmOpens w then
        Inr (filter pendingPredicate
               (filter (\<lambda>r. lastUpdate r > dateNow w - (60 * 60 * 1000))
                  (filter (\<lambda>r. serverConnectionConfigId r = Some serverConfigId \<and>
                               ebookLocation r \<noteq> None)
                     (realm_progress s))))
      else Inl RealmError)"


section \<open>Sync passes\<close>

definition performSync :: "world \<Rightarrow> ServerConnectionConfig \<Rightarrow> sync_state \<Rightarrow> sync_state" where
  "performSync w cfg s =
     (case getPendingProgressItems w (scc_id cfg) s of
        Inl err \<Rightarrow> emit (Log (FailedGetPending err)) s
      | Inr pendingItems \<Rightarrow>
          fold (syncProgressItem w) pendingItems
            (emit (Log (FoundPending (length pendingItems))) s))"

text \<open>
  \<open>syncPendingProgress\<close> returns \<open>Void\<close>. Its \<open>Task\<close> is run to completion here: the
  model is sequential, the flag is set before the pass and cleared after it.
\<close>

definition syncPendingProgress :: "world \<Rightarrow> sync_state \<Rightarrow> unit \<times> sync_state" where
  "syncPendingProgress w s =
     (if isCurrentlySyncing s then ((), emit (Log SyncAlreadyInProgress) s)
      else if isNetworkAvailable w then
        (case serverConfig s of
           None \<Rightarrow> ((), emit (Log NoServerConfiguration) s)
         | Some cfg \<Rightarrow>
             ((), (performSync w cfg (s\<lparr>isCurrentlySyncing := True\<rparr>))
                    \<lparr>isCurrentlySyncing := False\<rparr>))
      else ((), emit (Log NoNetworkForSync) s))"

text \<open>
  \<open>syncProgressItem\<close> does not throw, so the \<open>catch\<close> of \<open>syncProgressItemQuietly\<close>
  is dead code and the result is always \<open>true\<close>.
\<close>

definition syncProgressItemQuietly ::
  "world \<Rightarrow> LocalMediaProgress \<Rightarrow> sync_state \<Rightarrow> bool \<times> sync_state" where
  "syncProgressItemQuietly w progress s = (True, syncProgressItem w progress s)"

text \<open>The counting loop of \<open>performBackgroundSync\<close>.\<close>

fun backgroundLoop ::
  "world \<Rightarrow> LocalMediaProgress list \<Rightarrow> nat \<Rightarrow> sync_state \<Rightarrow> nat \<times> sync_state" where
  "backgroundLoop w [] successCount s = (successCount, s)"
| "backgroundLoop w (progress # rest) successCount s =
     (case syncProgressItemQuietly w progress s of
        (success, s1) \<Rightarrow>
          backgroundLoop w rest (if success then successCount + 1 else successCount) s1)"

definition performBackgroundSync :: "world \<Rightarrow> sync_state \<Rightarrow> bool \<times> sync_state" where
  "performBackgroundSync w s =
     (case serverConfig s of
        None \<Rightarrow> (False, emit (Log NoServerConfigBackground) s)
      | Some cfg \<Rightarrow>
          (if isNetworkAvailable w then
             (case getPendingProgressItems w (scc_id cfg) s of
                Inl err \<Rightarrow> (False, emit (Log (BackgroundError err)) s)
              | Inr pendingItems \<Rightarrow>
                  (case backgroundLoop w (take 10 pendingItems) 0
                          (emit (Log (BackgroundFound (length pendingItems))) s) of
                     (successCount, s1) \<Rightarrow>
                       (successCount > 0,
                        emit (Log (BackgroundCompleted successCount
                                     (min (length pendingItems) 10))) s1)))
           else (False, emit (Log NoNetworkBackground) s)))"

text \<open>The loop of \<open>performQuickSync\<close>; the result of each quiet sync is discarded.\<close>

fun quickLoop :: "world \<Rightarrow> LocalMediaProgress list \<Rightarrow> sync_state \<Rightarrow> sync_state" where
  "quickLoop w [] s = s"
| "quickLoop w (progress # rest) s =
     quickLoop w rest (snd (syncProgressItemQuietly w progress s))"

definition performQuickSync :: "world \<Rightarrow> sync_state \<Rightarrow> bool \<times> sync_state" where
  "performQuickSync w s =
     (case serverConfig s of
        None \<Rightarrow> (False, s)
      | Some cfg \<Rightarrow>
          (if isNetworkAvailable w then
             (case getRecentlyUpdatedItems w (scc_id cfg) s of
                Inl err \<Rightarrow> (False, emit (Log (QuickError err)) s)
              | Inr recentItems \<Rightarrow>
                  (if recentItems = [] then (True, s)
                   else (True, quickLoop w (take 3 recentItems)
                                 (emit (Log (QuickFound (length recentItems))) s))))
           else (False, s)))"

section \<open>Manual sync and the pending query\<close>

text \<open>The Realm query \<open>filter("localLibraryItemId == %@", id).first\<close>.\<close>

definition firstByLocalLibraryItemId ::
  "string \<Rightarrow> sync_state \<Rightarrow> LocalMediaProgress option" where
  "firstByLocalLibraryItemId itemId s =
     find (\<lambda>r. localLibraryItemId r = itemId) (realm_progress s)"

definition manualSyncProgress ::
  "world \<Rightarrow> string \<Rightarrow> sync_state \<Rightarrow> (sync_exn + bool) \<times> sync_state" where
  "manualSyncProgress w itemId s =
     (case serverConfig s of
        None \<Rightarrow> (Inl (SyncError noServerConfig), s)
      | Some cfg \<Rightarrow>
          (if isNetworkAvailable w then
             (if realmOpens w then
                (case firstByLocalLibraryItemId itemId s of
                   None \<Rightarrow> (Inl (SyncError progressNotFound), s)
                 | Some progress \<Rightarrow>
                     (Inr (case firstByLocalLibraryItemId itemId
                                  (syncProgressItem w progress s) of
                             None \<Rightarrow> False
                           | Some updatedProgress \<Rightarrow>
                               (case lastServerSync updatedProgress of
                                  None \<Rightarrow> False
                                | Some t \<Rightarrow> t \<ge> lastUpdate updatedProgress)),
                      syncProgressItem w progress s))
              else (Inl RealmError, s))
           else (Inl (SyncError noNetwork), s)))"


section \<open>Observing a run\<close>

text \<open>
  The events that matter for counting: the start of an item (the attempt log line, or
  the give-up line when the retry budget is spent) and the two transport calls.
\<close>

fun significant :: "event \<Rightarrow> bool" where
  "significant (Log (SyncingItem a n)) = True"
| "significant (Log (MaxRetryReached a)) = True"
| "significant (ApiGet a) = True"
| "significant (ApiPatch a d) = True"
| "significant e = False"

fun isItemStart :: "event \<Rightarrow> bool" where
  "isItemStart (Log (SyncingItem a n)) = True"
| "isItemStart (Log (MaxRetryReached a)) = True"
| "isItemStart e = False"

fun isApiGet :: "event \<Rightarrow> bool" where
  "isApiGet (ApiGet a) = True"
| "isApiGet e = False"

fun isApiPatch :: "event \<Rightarrow> bool" where
  "isApiPatch (ApiPatch a d) = True"
| "isApiPatch e = False"

definition calls :: "sync_state \<Rightarrow> event list" where
  "calls s = filter significant (trace s)"

definition countEvents :: "(event \<Rightarrow> bool) \<Rightarrow> sync_state \<Rightarrow> nat" where
  "countEvents P s = length (filter P (trace s))"

text \<open>The rows of the progress table whose primary key is not \<open>k\<close>.\<close>

definition otherRows :: "string \<Rightarrow> sync_state \<Rightarrow> LocalMediaProgress list" where
  "otherRows k s = filter (\<lambda>r. lmp_id r \<noteq> k) (realm_progress s)"

text \<open>
  What a sync of the record with key \<open>k\<close> may change: it extends the trace, writes rows
  with key \<open>k\<close> and the retry entry of \<open>k\<close>, and nothing else.
\<close>

definition advances :: "string \<Rightarrow> sync_state \<Rightarrow> sync_state \<Rightarrow> bool" where
  "advances k s s' =
     (realm_items s' = realm_items s \<and> serverConfig s' = serverConfig s \<and>
      isCurrentlySyncing s' = isCurrentlySyncing s \<and>
      (\<exists>evs. trace s' = trace s @ evs) \<and>
      otherRows k s' = otherRows k s \<and>
      (\<forall>k'. k' \<noteq> k \<longrightarrow> retryAttempts s' k' = retryAttempts s k'))"

text \<open>
  The state of \<open>syncProgressItem\<close> after the backoff sleep and the attempt log line,
  before the server item is looked up.
\<close>

definition started :: "LocalMediaProgress \<Rightarrow> sync_state \<Rightarrow> sync_state" where
  "started p s =
     emit (Log (SyncingItem (localLibraryItemId p) (currentRetriesOf s (lmp_id p) + 1)))
       (if currentRetriesOf s (lmp_id p) > 0
        then emit (TaskSleep (calculateRetryDelay (currentRetriesOf s (lmp_id p)))) s
        else s)"

text \<open>
  A transport failure for one server item: the fetch fails with an error, or no patch
  is answered with success.
\<close>

definition transportFails :: "world \<Rightarrow> string \<Rightarrow> bool" where
  "transportFails w lib =
     ((\<exists>err. getResource w lib = GetFailure (Some err)) \<or>
      (\<forall>d. patchResource w lib d \<noteq> PatchSuccess True))"

text \<open>
  Successive triggers for records, each with the collaborators' answers at that time.
\<close>

fun triggerSeq :: "(world \<times> LocalMediaProgress) list \<Rightarrow> sync_state \<Rightarrow> sync_state" where
  "triggerSeq [] s = s"
| "triggerSeq ((w, p) # rest) s = triggerSeq rest (syncProgressItem w p s)"

text \<open>
  Telling which record an item start belongs to: the attempt line names the local
  library item, the give-up line the progress id. \<open>startEventOf\<close> is the start line
  \<open>syncProgressItem\<close> writes for a record in a given state.
\<close>

fun isStartOf :: "LocalMediaProgress \<Rightarrow> event \<Rightarrow> bool" where
  "isStartOf p (Log (SyncingItem a n)) = (a = localLibraryItemId p)"
| "isStartOf p (Log (MaxRetryReached a)) = (a = lmp_id p)"
| "isStartOf p e = False"

definition startEventOf :: "sync_state \<Rightarrow> LocalMediaProgress \<Rightarrow> event" where
  "startEventOf s p =
     (if currentRetriesOf s (lmp_id p) \<ge> maxRetryAttempts
      then Log (MaxRetryReached (lmp_id p))
      else Log (SyncingItem (localLibraryItemId p) (currentRetriesOf s (lmp_id p) + 1)))"

text \<open>
  What one record's sync can read and write of the state: its rows, its retry entry and
  the table of local library items. \<open>sameFor k\<close> says that two states agree on these
  for the key \<open>k\<close>.
\<close>

definition rowsOf :: "string \<Rightarrow> sync_state \<Rightarrow> LocalMediaProgress list" where
  "rowsOf k s = filter (\<lambda>r. lmp_id r = k) (realm_progress s)"

definition sameFor :: "string \<Rightarrow> sync_state \<Rightarrow> sync_state \<Rightarrow> bool" where
  "sameFor k s t =
     (retryAttempts s k = retryAttempts t k \<and> realm_items s = realm_items t \<and>
      rowsOf k s = rowsOf k t)"

section \<open>Example inputs\<close>

text \<open>
  One downloaded book of server \<open>A\<close>, read to 20 percent and never synced; it is mapped
  to the server item \<open>lib1\<close>.
\<close>

definition exLocal :: LocalMediaProgress where
  "exLocal = \<lparr>lmp_id = ''p1'', localLibraryItemId = ''item1'',
     serverConnectionConfigId = Some ''A'', ebookLocation = Some ''loc-local'',
     ebookProgress = 1 / 5, lastUpdate = 1000, isFinished = False, lastServerSync = None\<rparr>"

definition exState :: sync_state where
  "exState = \<lparr>realm_progress = [exLocal],
     realm_items = [''item1'' \<mapsto> \<lparr>libraryItemId = Some ''lib1''\<rparr>],
     serverConfig = Some \<lparr>scc_id = ''A''\<rparr>, retryAttempts = Map.empty,
     isCurrentlySyncing = False, trace = []\<rparr>"

text \<open>Online, Realm healthy, no progress on the server yet, every patch succeeds.\<close>

definition exWorld :: world where
  "exWorld = \<lparr>isConnectedToInternet = True, realmOpens = True, realmWrites = True,
     getResource = (\<lambda>lib. GetFailure None),
     patchResource = (\<lambda>lib d. PatchSuccess True), dateNow = 5000\<rparr>"

definition exWorldFailing :: world where
  "exWorldFailing = exWorld\<lparr>patchResource := (\<lambda>lib d. PatchFailure)\<rparr>"

definition exFailures :: "(world \<times> LocalMediaProgress) list" where
  "exFailures = replicate 5 (exWorldFailing, exLocal)"

text \<open>The server holds the same fraction with the same timestamp, at another location.\<close>

definition exServerTie :: MediaProgress where
  "exServerTie = \<lparr>mp_libraryItemId = ''lib1'', mp_ebookLocation = Some ''loc-server'',
     mp_ebookProgress = 1 / 5, mp_lastUpdate = 1000, mp_isFinished = False\<rparr>"

definition exWorldTie :: world where
  "exWorldTie = exWorld\<lparr>getResource := (\<lambda>lib. GetSuccess exServerTie)\<rparr>"

text \<open>The server is further along (50 percent), updated 60 ms later.\<close>

definition exServerAhead :: MediaProgress where
  "exServerAhead = \<lparr>mp_libraryItemId = ''lib1'', mp_ebookLocation = Some ''loc-server'',
     mp_ebookProgress = 1 / 2, mp_lastUpdate = 1060, mp_isFinished = False\<rparr>"

definition exWorldAhead :: world where
  "exWorldAhead = exWorld\<lparr>getResource := (\<lambda>lib. GetSuccess exServerAhead)\<rparr>"

definition exStateRetry3 :: sync_state where
  "exStateRetry3 = exState\<lparr>retryAttempts := [''p1'' \<mapsto> 3]\<rparr>"

definition exStateUnmapped :: sync_state where
  "exStateUnmapped = exState\<lparr>realm_items := Map.empty\<rparr>"

text \<open>The app is connected to server \<open>B\<close> while the record belongs to server \<open>A\<close>.\<close>

definition exStateOtherServer :: sync_state where
  "exStateOtherServer = exState\<lparr>serverConfig := Some \<lparr>scc_id = ''B''\<rparr>\<rparr>"



definition exStateEmpty :: sync_state where
  "exStateEmpty = exState\<lparr>realm_progress := []\<rparr>"

text \<open>Eleven pending records of server \<open>A\<close>.\<close>

definition exRow :: "string \<Rightarrow> LocalMediaProgress" where
  "exRow k = exLocal\<lparr>lmp_id := k, localLibraryItemId := k\<rparr>"

definition exStateMany :: sync_state where
  "exStateMany = exState\<lparr>realm_progress :=
     map exRow [''r01'', ''r02'', ''r03'', ''r04'', ''r05'', ''r06'',
                ''r07'', ''r08'', ''r09'', ''r10'', ''r11'']\<rparr>"

text \<open>
  Three pending records of server \<open>A\<close>, each mapped to its own server item; the
  patch for the first one fails, the others succeed.
\<close>

definition exStateThree :: sync_state where
  "exStateThree = exState\<lparr>
     realm_progress := map exRow [''r01'', ''r02'', ''r03''],
     realm_items := [''r01'' \<mapsto> \<lparr>libraryItemId = Some ''l01''\<rparr>,
                     ''r02'' \<mapsto> \<lparr>libraryItemId = Some ''l02''\<rparr>,
                     ''r03'' \<mapsto> \<lparr>libraryItemId = Some ''l03''\<rparr>]\<rparr>"

definition exWorldFirstFails :: world where
  "exWorldFirstFails = exWorld\<lparr>patchResource :=
     (\<lambda>lib d. if lib = ''l01'' then PatchFailure else PatchSuccess True)\<rparr>"

section \<open>Frame and trace lemmas\<close>

lemma calls_emit: "calls (emit e s) = calls s @ (if significant e then [e] else [])"
  by (simp add: calls_def emit_def)

lemma calls_writeProgress [simp]: "calls (writeProgress k f s) = calls s"
  by (simp add: calls_def writeProgress_def)

lemma calls_retry [simp]: "calls (s\<lparr>retryAttempts := g\<rparr>) = calls s"
  by (simp add: calls_def)

lemma calls_noteFailure_error [simp]:
  "calls (noteFailure k n (ErrorSyncing a x) s) = calls s"
  by (simp add: noteFailure_def calls_emit)

lemma calls_noteFailure_retry [simp]:
  "calls (noteFailure k n (FailedWillRetry a) s) = calls s"
  by (simp add: noteFailure_def calls_emit)

lemma calls_fetch [simp]: "calls (snd (fetchServerProgress w lib s)) = calls s @ [ApiGet lib]"
  by (simp add: fetchServerProgress_def calls_emit split: get_result.splits option.splits)

lemma calls_update [simp]:
  "calls (snd (updateLocalProgressFromServer w lp sp s)) = calls s"
  by (simp add: updateLocalProgressFromServer_def calls_emit)

lemma calls_resolve [simp]:
  "calls (snd (resolveProgressConflicts w lp lib s)) = calls s @ [ApiGet lib]"
proof -
  have "calls (snd (fetchServerProgress w lib s)) = calls s @ [ApiGet lib]" by simp
  then show ?thesis
    by (cases "fetchServerProgress w lib s")
       (auto simp: resolveProgressConflicts_def calls_emit split: sum.splits option.splits)
qed

lemma calls_send [simp]:
  "calls (snd (sendProgressToServer w lp lib s)) = calls s @ [ApiPatch lib (progressDataOf lp)]"
  by (simp add: sendProgressToServer_def calls_emit split: patch_result.splits)

lemma calls_mark [simp]: "calls (snd (markProgressAsSynced w lp s)) = calls s"
  by (simp add: markProgressAsSynced_def calls_emit)

lemma calls_attemptSync:
  "\<exists>tl. calls (attemptSync w p n lib s) = calls s @ ApiGet lib # tl \<and>
        (tl = [] \<or> (\<exists>d. tl = [ApiPatch lib d]))"
proof -
  obtain r1 s1 where r: "resolveProgressConflicts w p lib s = (r1, s1)" by force
  then have f1: "calls s1 = calls s @ [ApiGet lib]" using calls_resolve [of w p lib s] by simp
  show ?thesis
  proof (cases r1)
    case (Inl err)
    with r f1 show ?thesis by (simp add: attemptSync_def)
  next
    case (Inr rp)
    obtain b s2 where sd: "sendProgressToServer w rp lib s1 = (b, s2)" by force
    then have f2: "calls s2 = calls s @ [ApiGet lib, ApiPatch lib (progressDataOf rp)]"
      using calls_send [of w rp lib s1] f1 by simp
    obtain r3 s3 where mk: "markProgressAsSynced w p s2 = (r3, s3)" by force
    then have f3: "calls s3 = calls s @ [ApiGet lib, ApiPatch lib (progressDataOf rp)]"
      using calls_mark [of w p s2] f2 by simp
    from r Inr sd mk f2 f3 show ?thesis
      by (cases b; cases r3) (simp_all add: attemptSync_def calls_emit)
  qed
qed

lemma calls_getServerLibraryItemId [simp]:
  "calls (snd (getServerLibraryItemId w p s)) = calls s"
  by (simp add: getServerLibraryItemId_def calls_emit split: option.splits)

lemma calls_syncProgressItem:
  "\<exists>hd tl. calls (syncProgressItem w p s) = calls s @ hd # tl \<and> isItemStart hd \<and>
     (tl = [] \<or> (\<exists>lib. tl = [ApiGet lib] \<or> (\<exists>d. tl = [ApiGet lib, ApiPatch lib d])))"
proof (cases "currentRetriesOf s (lmp_id p) \<ge> maxRetryAttempts")
  case True
  then show ?thesis by (simp add: syncProgressItem_def calls_emit)
next
  case False
  let ?n = "currentRetriesOf s (lmp_id p)"
  let ?hd = "Log (SyncingItem (localLibraryItemId p) (?n + 1))"
  let ?s0 = "emit ?hd (if ?n > 0 then emit (TaskSleep (calculateRetryDelay ?n)) s else s)"
  have f0: "calls ?s0 = calls s @ [?hd]" by (simp add: calls_emit)
  obtain r1 s1 where g: "getServerLibraryItemId w p ?s0 = (r1, s1)" by force
  then have f1: "calls s1 = calls s @ [?hd]"
    using calls_getServerLibraryItemId [of w p ?s0] f0 by simp
  show ?thesis
  proof (cases r1)
    case None
    with False g f1 show ?thesis by (simp add: syncProgressItem_def calls_emit)
  next
    case (Some lib)
    from calls_attemptSync [of w p ?n lib s1] obtain tl where
      tl: "calls (attemptSync w p ?n lib s1) = calls s1 @ ApiGet lib # tl"
          "tl = [] \<or> (\<exists>d. tl = [ApiPatch lib d])" by blast
    from False g Some have "syncProgressItem w p s = attemptSync w p ?n lib s1"
      by (simp add: syncProgressItem_def)
    with tl f1 show ?thesis by auto
  qed
qed

lemma filter_calls:
  assumes "\<And>e. P e \<Longrightarrow> significant e"
  shows "filter P (trace s) = filter P (calls s)"
proof -
  have "(\<lambda>x. significant x \<and> P x) = P" using assms by auto
  then show ?thesis by (simp add: calls_def)
qed

lemma isItemStart_significant: "isItemStart e \<Longrightarrow> significant e"
  by (cases e rule: isItemStart.cases) simp_all

lemma isApiGet_significant: "isApiGet e \<Longrightarrow> significant e"
  by (cases e rule: isApiGet.cases) simp_all

lemma isApiPatch_significant: "isApiPatch e \<Longrightarrow> significant e"
  by (cases e rule: isApiPatch.cases) simp_all

lemma itemStarts_syncProgressItem:
  "length (filter isItemStart (trace (syncProgressItem w p s))) =
   length (filter isItemStart (trace s)) + 1"
  using calls_syncProgressItem [of w p s]
  by (auto simp: filter_calls [of isItemStart, OF isItemStart_significant])

lemma apiGets_syncProgressItem:
  "length (filter isApiGet (trace (syncProgressItem w p s))) \<le>
   length (filter isApiGet (trace s)) + 1"
proof -
  obtain hd tl where h: "calls (syncProgressItem w p s) = calls s @ hd # tl" "isItemStart hd"
     "tl = [] \<or> (\<exists>lib. tl = [ApiGet lib] \<or> (\<exists>d. tl = [ApiGet lib, ApiPatch lib d]))"
    using calls_syncProgressItem [of w p s] by blast
  from h(2) have "\<not> isApiGet hd" by (cases hd rule: isItemStart.cases) simp_all
  with h show ?thesis
    by (auto simp: filter_calls [of isApiGet, OF isApiGet_significant])
qed

lemma apiPatches_syncProgressItem:
  "length (filter isApiPatch (trace (syncProgressItem w p s))) \<le>
   length (filter isApiPatch (trace s)) + 1"
proof -
  obtain hd tl where h: "calls (syncProgressItem w p s) = calls s @ hd # tl" "isItemStart hd"
     "tl = [] \<or> (\<exists>lib. tl = [ApiGet lib] \<or> (\<exists>d. tl = [ApiGet lib, ApiPatch lib d]))"
    using calls_syncProgressItem [of w p s] by blast
  from h(2) have "\<not> isApiPatch hd" by (cases hd rule: isItemStart.cases) simp_all
  with h show ?thesis
    by (auto simp: filter_calls [of isApiPatch, OF isApiPatch_significant])
qed

lemma advances_refl [simp]: "advances k s s"
  by (simp add: advances_def)

lemma advances_trans: "advances k s s1 \<Longrightarrow> advances k s1 s2 \<Longrightarrow> advances k s s2"
  by (auto simp: advances_def)

lemma advances_emit [simp]: "advances k s (emit e s)"
  by (simp add: advances_def emit_def otherRows_def)

lemma otherRows_write:
  assumes "\<And>r. lmp_id (f r) = lmp_id r"
  shows "otherRows k (writeProgress k f s) = otherRows k s"
proof -
  have "filter (\<lambda>r. lmp_id r \<noteq> k) (map (\<lambda>r. if lmp_id r = k then f r else r) xs) =
        filter (\<lambda>r. lmp_id r \<noteq> k) xs" for xs
    by (induction xs) (simp_all add: assms)
  then show ?thesis by (simp add: otherRows_def writeProgress_def)
qed

lemma advances_write:
  assumes "\<And>r. lmp_id (f r) = lmp_id r"
  shows "advances k s (writeProgress k f s)"
  using otherRows_write [of f k s, OF assms]
  by (simp add: advances_def) (simp add: writeProgress_def)

lemma advances_retry [simp]:
  "advances k s (s\<lparr>retryAttempts := (retryAttempts s)(k := v)\<rparr>)"
  by (simp add: advances_def otherRows_def)

lemma advances_noteFailure [simp]: "advances k s (noteFailure k n m s)"
  unfolding noteFailure_def
  by (rule advances_trans [OF advances_retry advances_emit])

lemma advances_fetch [simp]: "advances k s (snd (fetchServerProgress w lib s))"
  by (simp add: fetchServerProgress_def split: get_result.splits option.splits)

lemma advances_update [simp]:
  "advances (lmp_id lp) s (snd (updateLocalProgressFromServer w lp sp s))"
proof (cases "realmOpens w \<and> realmWrites w")
  case True
  have "advances (lmp_id lp) s
          (writeProgress (lmp_id lp) (updateFromServerMediaProgress sp) s)"
    by (rule advances_write) (simp add: updateFromServerMediaProgress_def)
  then show ?thesis using True
    by (simp add: updateLocalProgressFromServer_def advances_trans [OF _ advances_emit])
next
  case False
  then show ?thesis by (auto simp: updateLocalProgressFromServer_def)
qed

lemma advances_resolve [simp]:
  "advances (lmp_id lp) s (snd (resolveProgressConflicts w lp lib s))"
proof -
  obtain r1 s1 where f: "fetchServerProgress w lib s = (r1, s1)" by force
  then have a1: "advances (lmp_id lp) s s1" using advances_fetch [of "lmp_id lp" s w lib] by simp
  have a2: "advances (lmp_id lp) s1 (emit e s1)" for e by simp
  have a3: "advances (lmp_id lp) s1 (snd (updateLocalProgressFromServer w lp sp (emit e s1)))" for e sp
    by (rule advances_trans [OF advances_emit advances_update])
  show ?thesis
    using f advances_trans [OF a1 a2] advances_trans [OF a1 a3] a1
    by (auto simp: resolveProgressConflicts_def split: sum.splits option.splits)
qed

lemma advances_send [simp]: "advances k s (snd (sendProgressToServer w lp lib s))"
  by (simp add: sendProgressToServer_def split: patch_result.splits)

lemma advances_mark [simp]: "advances (lmp_id lp) s (snd (markProgressAsSynced w lp s))"
proof (cases "realmOpens w \<and> realmWrites w")
  case True
  have "advances (lmp_id lp) s
          (writeProgress (lmp_id lp) (\<lambda>r. r\<lparr>lastServerSync := Some (dateNow w)\<rparr>) s)"
    by (rule advances_write) simp
  then show ?thesis using True
    by (simp add: markProgressAsSynced_def advances_trans [OF _ advances_emit])
next
  case False
  then show ?thesis by (auto simp: markProgressAsSynced_def)
qed

lemma advances_attemptSync [simp]: "advances (lmp_id p) s (attemptSync w p n lib s)"
proof -
  let ?k = "lmp_id p"
  obtain r1 s1 where r: "resolveProgressConflicts w p lib s = (r1, s1)" by force
  then have f1: "advances ?k s s1" using advances_resolve [of p s w lib] by simp
  show ?thesis
  proof (cases r1)
    case (Inl err)
    with r advances_trans [OF f1 advances_noteFailure] show ?thesis
      by (simp add: attemptSync_def)
  next
    case (Inr rp)
    obtain b s2 where sd: "sendProgressToServer w rp lib s1 = (b, s2)" by force
    then have f2: "advances ?k s s2"
      using advances_trans [OF f1 advances_send [of ?k s1 w rp lib]] by simp
    obtain r3 s3 where mk: "markProgressAsSynced w p s2 = (r3, s3)" by force
    then have f3: "advances ?k s s3"
      using advances_trans [OF f2 advances_mark [of p s2 w]] by simp
    have f4: "advances ?k s (emit e (s3\<lparr>retryAttempts := (retryAttempts s3)(?k := None)\<rparr>))" for e
      by (rule advances_trans [OF f3 advances_trans [OF advances_retry advances_emit]])
    from r Inr sd mk show ?thesis
      using advances_trans [OF f2 advances_noteFailure] advances_trans [OF f3 advances_noteFailure] f4
      by (cases b; cases r3) (simp_all add: attemptSync_def)
  qed
qed

lemma advances_getServerLibraryItemId [simp]:
  "advances k s (snd (getServerLibraryItemId w p s))"
  by (simp add: getServerLibraryItemId_def split: option.splits)

lemma syncProgressItem_exhausted:
  "currentRetriesOf s (lmp_id p) \<ge> maxRetryAttempts \<Longrightarrow>
   syncProgressItem w p s =
     emit (Log (MaxRetryReached (lmp_id p)))
       (s\<lparr>retryAttempts := (retryAttempts s)(lmp_id p := None)\<rparr>)"
  by (simp add: syncProgressItem_def)

lemma getServerLibraryItemId_fst:
  "realm_items s' = realm_items s \<Longrightarrow>
   fst (getServerLibraryItemId w p s') = fst (getServerLibraryItemId w p s)"
  by (simp add: getServerLibraryItemId_def split: option.splits)

lemma getServerLibraryItemId_snd_mapped:
  "fst (getServerLibraryItemId w p s) = Some lib \<Longrightarrow> snd (getServerLibraryItemId w p s) = s"
  by (auto simp: getServerLibraryItemId_def split: option.splits if_splits)

lemma started_items [simp]: "realm_items (started p s) = realm_items s"
  by (simp add: started_def emit_def)

lemma syncProgressItem_mapped:
  assumes "currentRetriesOf s (lmp_id p) < maxRetryAttempts"
      and "fst (getServerLibraryItemId w p s) = Some lib"
  shows "syncProgressItem w p s =
           attemptSync w p (currentRetriesOf s (lmp_id p)) lib (started p s)"
proof -
  have "fst (getServerLibraryItemId w p (started p s)) = Some lib"
    using assms(2) getServerLibraryItemId_fst [of "started p s" s w p] by simp
  then have "getServerLibraryItemId w p (started p s) = (Some lib, started p s)"
    using getServerLibraryItemId_snd_mapped [of w p "started p s" lib]
    by (cases "getServerLibraryItemId w p (started p s)") simp
  then show ?thesis using assms(1)
    by (simp add: syncProgressItem_def started_def)
qed

lemma syncProgressItem_unmapped:
  assumes "currentRetriesOf s (lmp_id p) < maxRetryAttempts"
      and "fst (getServerLibraryItemId w p s) = None"
  shows "syncProgressItem w p s =
           emit (Log (NoServerLibraryItemId (lmp_id p)))
             (snd (getServerLibraryItemId w p (started p s)))"
proof -
  have "fst (getServerLibraryItemId w p (started p s)) = None"
    using assms(2) getServerLibraryItemId_fst [of "started p s" s w p] by simp
  then obtain s1 where "getServerLibraryItemId w p (started p s) = (None, s1)"
    by (cases "getServerLibraryItemId w p (started p s)") simp
  then show ?thesis using assms(1)
    by (simp add: syncProgressItem_def started_def)
qed

lemma advances_started [simp]: "advances k s (started p s)"
  unfolding started_def
  by (auto intro: advances_trans [OF advances_emit advances_emit])

lemma advances_syncProgressItem: "advances (lmp_id p) s (syncProgressItem w p s)"
proof (cases "currentRetriesOf s (lmp_id p) \<ge> maxRetryAttempts")
  case True
  then show ?thesis
    by (simp add: syncProgressItem_exhausted advances_trans [OF advances_retry advances_emit])
next
  case False
  then have lt: "currentRetriesOf s (lmp_id p) < maxRetryAttempts" by simp
  show ?thesis
  proof (cases "fst (getServerLibraryItemId w p s)")
    case None
    show ?thesis
      unfolding syncProgressItem_unmapped [OF lt None]
      by (rule advances_trans [OF advances_started
            advances_trans [OF advances_getServerLibraryItemId advances_emit]])
  next
    case (Some lib)
    show ?thesis
      unfolding syncProgressItem_mapped [OF lt Some]
      by (rule advances_trans [OF advances_started advances_attemptSync])
  qed
qed

lemma started_trace:
  "trace (started p s) =
     trace s @ (if currentRetriesOf s (lmp_id p) > 0
                then [TaskSleep (calculateRetryDelay (currentRetriesOf s (lmp_id p)))] else []) @
     [Log (SyncingItem (localLibraryItemId p) (currentRetriesOf s (lmp_id p) + 1))]"
  by (simp add: started_def emit_def)

lemma syncProgressItem_after_started:
  assumes "currentRetriesOf s (lmp_id p) < maxRetryAttempts"
  shows "\<exists>rest. trace (syncProgressItem w p s) = trace (started p s) @ rest"
proof (cases "fst (getServerLibraryItemId w p s)")
  case None
  have "advances (lmp_id p) (started p s)
          (emit (Log (NoServerLibraryItemId (lmp_id p)))
             (snd (getServerLibraryItemId w p (started p s))))"
    by (rule advances_trans [OF advances_getServerLibraryItemId advances_emit])
  then show ?thesis
    unfolding syncProgressItem_unmapped [OF assms None] by (simp add: advances_def)
next
  case (Some lib)
  have "advances (lmp_id p) (started p s)
          (attemptSync w p (currentRetriesOf s (lmp_id p)) lib (started p s))"
    by simp
  then show ?thesis
    unfolding syncProgressItem_mapped [OF assms Some] by (simp add: advances_def)
qed

lemma resolve_get_error:
  "getResource w lib = GetFailure (Some err) \<Longrightarrow>
   fst (resolveProgressConflicts w p lib s) = Inl (ApiError err)"
  by (simp add: resolveProgressConflicts_def fetchServerProgress_def)

lemma resolve_ok_get:
  "fst (resolveProgressConflicts w p lib s) = Inr rp \<Longrightarrow>
   getResource w lib \<noteq> GetFailure (Some err)"
  using resolve_get_error [of w lib err p s] by auto

lemma send_fails:
  "\<forall>d. patchResource w lib d \<noteq> PatchSuccess True \<Longrightarrow>
   fst (sendProgressToServer w p lib s) = False"
  by (auto simp: sendProgressToServer_def split: patch_result.splits)

lemma retry_noteFailure [simp]:
  "retryAttempts (noteFailure k n m s) k = Some (n + 1)"
  by (simp add: noteFailure_def emit_def)

lemma attemptSync_fails:
  assumes "transportFails w lib"
  shows "retryAttempts (attemptSync w p n lib s) (lmp_id p) = Some (n + 1)"
proof -
  obtain r1 s1 where r: "resolveProgressConflicts w p lib s = (r1, s1)" by force
  show ?thesis
  proof (cases r1)
    case (Inl err)
    with r show ?thesis by (simp add: attemptSync_def)
  next
    case (Inr rp)
    with r have "fst (resolveProgressConflicts w p lib s) = Inr rp" by simp
    then have "\<forall>err. getResource w lib \<noteq> GetFailure (Some err)"
      using resolve_ok_get by blast
    with assms have "\<forall>d. patchResource w lib d \<noteq> PatchSuccess True"
      by (auto simp: transportFails_def)
    then have "fst (sendProgressToServer w rp lib s1) = False" by (rule send_fails)
    then obtain s2 where "sendProgressToServer w rp lib s1 = (False, s2)"
      by (cases "sendProgressToServer w rp lib s1") simp
    with r Inr show ?thesis by (simp add: attemptSync_def)
  qed
qed

lemma failing_trigger:
  assumes "currentRetriesOf s (lmp_id p) < maxRetryAttempts"
      and "fst (getServerLibraryItemId w p s) = Some lib"
      and "transportFails w lib"
  shows "currentRetriesOf (syncProgressItem w p s) (lmp_id p) =
           currentRetriesOf s (lmp_id p) + 1"
  unfolding syncProgressItem_mapped [OF assms(1,2)]
  using attemptSync_fails [OF assms(3)] by (simp add: currentRetriesOf_def)

lemma triggerSeq_failures:
  assumes "\<forall>(w, p) \<in> set ts. lmp_id p = k \<and>
             (\<exists>lib. fst (getServerLibraryItemId w p s0) = Some lib \<and> transportFails w lib)"
      and "realm_items s = realm_items s0"
      and "currentRetriesOf s k + length ts \<le> maxRetryAttempts"
  shows "currentRetriesOf (triggerSeq ts s) k = currentRetriesOf s k + length ts \<and>
         realm_items (triggerSeq ts s) = realm_items s0"
  using assms
proof (induction ts arbitrary: s)
  case Nil
  then show ?case by simp
next
  case (Cons wp ts)
  obtain w p where wp: "wp = (w, p)" by force
  from Cons.prems(1) wp obtain lib where
    k: "lmp_id p = k" and m0: "fst (getServerLibraryItemId w p s0) = Some lib"
    and tf: "transportFails w lib" by auto
  have m: "fst (getServerLibraryItemId w p s) = Some lib"
    using m0 getServerLibraryItemId_fst [OF Cons.prems(2), of w p] by simp
  have lt: "currentRetriesOf s (lmp_id p) < maxRetryAttempts"
    using Cons.prems(3) k by simp
  have step: "currentRetriesOf (syncProgressItem w p s) k = currentRetriesOf s k + 1"
    using failing_trigger [OF lt m tf] k by simp
  have items: "realm_items (syncProgressItem w p s) = realm_items s0"
    using advances_syncProgressItem [of p s w] Cons.prems(2) by (simp add: advances_def)
  have rest: "\<forall>(w, p) \<in> set ts. lmp_id p = k \<and>
             (\<exists>lib. fst (getServerLibraryItemId w p s0) = Some lib \<and> transportFails w lib)"
    using Cons.prems(1) by simp
  have bound: "currentRetriesOf (syncProgressItem w p s) k + length ts \<le> maxRetryAttempts"
    using step Cons.prems(3) by simp
  from Cons.IH [OF rest items bound] step wp show ?case by simp
qed

lemma fetch_snd: "snd (fetchServerProgress w lib s) = emit (ApiGet lib) s"
  by (simp add: fetchServerProgress_def split: get_result.splits option.splits)

lemma resolve_first_get:
  "\<exists>rest. trace (snd (resolveProgressConflicts w p lib s)) = trace s @ ApiGet lib # rest"
proof -
  let ?s1 = "emit (ApiGet lib) s"
  obtain r1 where f: "fetchServerProgress w lib s = (r1, ?s1)"
    using fetch_snd [of w lib s] by (cases "fetchServerProgress w lib s") simp
  have a3: "advances (lmp_id p) ?s1 (snd (updateLocalProgressFromServer w p sp (emit e ?s1)))" for e sp
    by (rule advances_trans [OF advances_emit advances_update])
  have "advances (lmp_id p) ?s1 (snd (resolveProgressConflicts w p lib s))"
    using f a3 by (auto simp: resolveProgressConflicts_def split: sum.splits option.splits)
  then obtain evs where "trace (snd (resolveProgressConflicts w p lib s)) = trace ?s1 @ evs"
    by (auto simp: advances_def)
  then show ?thesis by (simp add: emit_def)
qed

lemma attemptSync_after_resolve:
  "advances (lmp_id p) (snd (resolveProgressConflicts w p lib s)) (attemptSync w p n lib s)"
proof -
  let ?k = "lmp_id p"
  obtain r1 s1 where r: "resolveProgressConflicts w p lib s = (r1, s1)" by force
  show ?thesis
  proof (cases r1)
    case (Inl err)
    with r show ?thesis by (simp add: attemptSync_def)
  next
    case (Inr rp)
    obtain b s2 where sd: "sendProgressToServer w rp lib s1 = (b, s2)" by force
    then have f2: "advances ?k s1 s2" using advances_send [of ?k s1 w rp lib] by simp
    obtain r3 s3 where mk: "markProgressAsSynced w p s2 = (r3, s3)" by force
    then have f3: "advances ?k s1 s3"
      using advances_trans [OF f2 advances_mark [of p s2 w]] by simp
    have f4: "advances ?k s1 (emit e (s3\<lparr>retryAttempts := (retryAttempts s3)(?k := None)\<rparr>))" for e
      by (rule advances_trans [OF f3 advances_trans [OF advances_retry advances_emit]])
    from r Inr sd mk show ?thesis
      using advances_trans [OF f2 advances_noteFailure] advances_trans [OF f3 advances_noteFailure] f4
      by (cases b; cases r3) (simp_all add: attemptSync_def)
  qed
qed

lemma attemptSync_first_get:
  "\<exists>rest. trace (attemptSync w p n lib s) = trace s @ ApiGet lib # rest"
proof -
  obtain r1 where "trace (snd (resolveProgressConflicts w p lib s)) = trace s @ ApiGet lib # r1"
    using resolve_first_get by blast
  moreover obtain r2 where
    "trace (attemptSync w p n lib s) = trace (snd (resolveProgressConflicts w p lib s)) @ r2"
    using attemptSync_after_resolve [of p w lib s n] by (auto simp: advances_def)
  ultimately show ?thesis by simp
qed

lemma mapped_realmOpens:
  "fst (getServerLibraryItemId w p s) = Some lib \<Longrightarrow> realmOpens w"
  by (auto simp: getServerLibraryItemId_def split: if_splits)

lemma countEvents_emit:
  "countEvents P (emit e s) = countEvents P s + (if P e then 1 else 0)"
  by (simp add: countEvents_def emit_def)

lemma countEvents_flag [simp]:
  "countEvents P (s\<lparr>isCurrentlySyncing := b\<rparr>) = countEvents P s"
  by (simp add: countEvents_def)

lemma fold_itemStarts:
  "countEvents isItemStart (fold (syncProgressItem w) ps s) =
   countEvents isItemStart s + length ps"
  by (induction ps arbitrary: s) (simp_all add: countEvents_def itemStarts_syncProgressItem)

lemma fold_count_le:
  assumes "\<And>p s. countEvents P (syncProgressItem w p s) \<le> countEvents P s + 1"
  shows "countEvents P (fold (syncProgressItem w) ps s) \<le> countEvents P s + length ps"
proof (induction ps arbitrary: s)
  case Nil
  then show ?case by simp
next
  case (Cons p ps)
  have "countEvents P (fold (syncProgressItem w) ps (syncProgressItem w p s)) \<le>
        countEvents P (syncProgressItem w p s) + length ps" by (rule Cons.IH)
  also have "\<dots> \<le> countEvents P s + 1 + length ps" using assms [of p s] by simp
  finally show ?case by simp
qed

lemma getPending_flag [simp]:
  "getPendingProgressItems w cid (s\<lparr>isCurrentlySyncing := b\<rparr>) = getPendingProgressItems w cid s"
  by (simp add: getPendingProgressItems_def)

lemma backgroundLoop_fold:
  "backgroundLoop w ps c s = (c + length ps, fold (syncProgressItem w) ps s)"
  by (induction ps arbitrary: c s) (simp_all add: syncProgressItemQuietly_def)

lemma quickLoop_fold: "quickLoop w ps s = fold (syncProgressItem w) ps s"
  by (induction ps arbitrary: s) (simp_all add: syncProgressItemQuietly_def)

lemma count_step_itemStart:
  "countEvents isItemStart (syncProgressItem w p s) \<le> countEvents isItemStart s + 1"
  by (simp add: countEvents_def itemStarts_syncProgressItem)

lemma count_step_apiGet:
  "countEvents isApiGet (syncProgressItem w p s) \<le> countEvents isApiGet s + 1"
  using apiGets_syncProgressItem [of w p s] by (simp add: countEvents_def)

lemma count_step_apiPatch:
  "countEvents isApiPatch (syncProgressItem w p s) \<le> countEvents isApiPatch s + 1"
  using apiPatches_syncProgressItem [of w p s] by (simp add: countEvents_def)

lemma background_cap:
  assumes step: "\<And>p s. countEvents P (syncProgressItem w p s) \<le> countEvents P s + 1"
      and quiet: "\<And>m. P (Log m) \<Longrightarrow> isItemStart (Log m)"
  shows "countEvents P (snd (performBackgroundSync w s)) \<le> countEvents P s + 10"
proof -
  have q: "\<not> P (Log (BackgroundFound n))" "\<not> P (Log (BackgroundCompleted a b))"
     "\<not> P (Log (BackgroundError x))" "\<not> P (Log NoServerConfigBackground)"
     "\<not> P (Log NoNetworkBackground)" for n a b x
    using quiet by fastforce+
  have "countEvents P (fold (syncProgressItem w) (take 10 ps) (emit (Log m) s)) \<le>
        countEvents P s + 10" if "\<not> P (Log m)" for ps m
    using fold_count_le [of P w "take 10 ps" "emit (Log m) s", OF step] that
    by (simp add: countEvents_emit min_def split: if_splits)
  then show ?thesis
    by (auto simp: performBackgroundSync_def backgroundLoop_fold countEvents_emit q
          split: option.splits sum.splits)
qed

lemma quick_cap:
  assumes step: "\<And>p s. countEvents P (syncProgressItem w p s) \<le> countEvents P s + 1"
      and quiet: "\<And>m. P (Log m) \<Longrightarrow> isItemStart (Log m)"
  shows "countEvents P (snd (performQuickSync w s)) \<le> countEvents P s + 3"
proof -
  have q: "\<not> P (Log (QuickFound n))" "\<not> P (Log (QuickError x))" for n x
    using quiet by fastforce+
  have "countEvents P (fold (syncProgressItem w) (take 3 ps) (emit (Log m) s)) \<le>
        countEvents P s + 3" if "\<not> P (Log m)" for ps m
    using fold_count_le [of P w "take 3 ps" "emit (Log m) s", OF step] that
    by (simp add: countEvents_emit min_def split: if_splits)
  then show ?thesis
    by (auto simp: performQuickSync_def quickLoop_fold countEvents_emit q
          split: option.splits sum.splits)
qed

lemma keeps_row:
  assumes "r \<in> set (realm_progress s)" and "lmp_id r \<noteq> lmp_id p"
  shows "r \<in> set (realm_progress (syncProgressItem w p s))"
proof -
  have "otherRows (lmp_id p) (syncProgressItem w p s) = otherRows (lmp_id p) s"
    using advances_syncProgressItem [of p s w] by (simp add: advances_def)
  moreover have "r \<in> set (otherRows (lmp_id p) s)" using assms by (simp add: otherRows_def)
  ultimately have "r \<in> set (otherRows (lmp_id p) (syncProgressItem w p s))" by simp
  then show ?thesis by (simp add: otherRows_def)
qed

lemma fold_keeps_row:
  assumes "r \<in> set (realm_progress s)" and "lmp_id r \<notin> lmp_id ` set ps"
  shows "r \<in> set (realm_progress (fold (syncProgressItem w) ps s))"
  using assms
proof (induction ps arbitrary: s)
  case Nil
  then show ?case by simp
next
  case (Cons p ps)
  then have "r \<in> set (realm_progress (syncProgressItem w p s))"
    by (intro keeps_row) auto
  with Cons show ?case by simp
qed

lemma drop_ids_fresh:
  assumes "distinct (map f xs)" and "r \<in> set (drop n xs)"
  shows "f r \<notin> f ` set (take n xs)"
proof -
  have "distinct (map f (take n xs) @ map f (drop n xs))"
    using assms(1) by (simp flip: map_append)
  then have "set (map f (take n xs)) \<inter> set (map f (drop n xs)) = {}" by simp
  moreover have "f r \<in> set (map f (drop n xs))" using assms(2) by simp
  ultimately show ?thesis by auto
qed

lemma beyond_cap_row_kept:
  assumes "distinct (map lmp_id (realm_progress s))"
      and "items = filter Q (realm_progress s)"
      and "r \<in> set (drop n items)"
  shows "r \<in> set (realm_progress (fold (syncProgressItem w) (take n items) (emit e s))) \<and> Q r"
proof -
  have d: "distinct (map lmp_id items)" using assms(1,2) by (simp add: distinct_map_filter)
  have "r \<in> set items" using assms(3) by (rule in_set_dropD)
  then have r: "r \<in> set (realm_progress (emit e s))" and q: "Q r"
    using assms(2) by (simp_all add: emit_def)
  have "lmp_id r \<notin> lmp_id ` set (take n items)" by (rule drop_ids_fresh [OF d assms(3)])
  with r q show ?thesis by (simp add: fold_keeps_row)
qed

lemma realm_progress_emit [simp]: "realm_progress (emit e s) = realm_progress s"
  by (simp add: emit_def)

subsection \<open>Each item of a pass on its own\<close>

lemma isStartOf_startEventOf: "isStartOf p (startEventOf s p)"
  by (simp add: startEventOf_def)

lemma isItemStart_startEventOf: "isItemStart (startEventOf s p)"
  by (simp add: startEventOf_def)

lemma item_starts:
  "\<exists>evs. trace (syncProgressItem w p s) = trace s @ evs \<and>
         filter isItemStart evs = [startEventOf s p]"
proof (cases "currentRetriesOf s (lmp_id p) \<ge> maxRetryAttempts")
  case True
  then show ?thesis
    by (simp add: syncProgressItem_exhausted emit_def startEventOf_def)
next
  case False
  then have lt: "currentRetriesOf s (lmp_id p) < maxRetryAttempts" by simp
  obtain rest where r: "trace (syncProgressItem w p s) = trace (started p s) @ rest"
    using syncProgressItem_after_started [OF lt, of w] by blast
  let ?pre = "(if currentRetriesOf s (lmp_id p) > 0
               then [TaskSleep (calculateRetryDelay (currentRetriesOf s (lmp_id p)))] else [])"
  have t: "trace (syncProgressItem w p s) = trace s @ (?pre @ startEventOf s p # rest)"
    using r False by (simp add: started_trace startEventOf_def)
  have one: "length (filter isItemStart (trace (syncProgressItem w p s))) =
             length (filter isItemStart (trace s)) + 1"
    by (rule itemStarts_syncProgressItem)
  have "filter isItemStart (?pre @ startEventOf s p # rest) =
          startEventOf s p # filter isItemStart rest"
    by (simp add: isItemStart_startEventOf)
  moreover have "length (filter isItemStart (?pre @ startEventOf s p # rest)) = 1"
    using one unfolding t by simp
  ultimately have "filter isItemStart (?pre @ startEventOf s p # rest) = [startEventOf s p]"
    by simp
  with t show ?thesis by blast
qed

lemma item_fetch:
  assumes "currentRetriesOf s (lmp_id p) < maxRetryAttempts"
      and "fst (getServerLibraryItemId w p s) = Some lib"
  shows "\<exists>evs. trace (syncProgressItem w p s) = trace s @ evs \<and> ApiGet lib \<in> set evs"
proof -
  obtain rest where
    "trace (attemptSync w p (currentRetriesOf s (lmp_id p)) lib (started p s)) =
       trace (started p s) @ ApiGet lib # rest"
    using attemptSync_first_get by blast
  then show ?thesis
    unfolding syncProgressItem_mapped [OF assms] by (simp add: started_trace)
qed

lemma startEventOf_other:
  assumes "advances k s s'" and "lmp_id q \<noteq> k"
  shows "startEventOf s' q = startEventOf s q"
  using assms by (simp add: advances_def startEventOf_def currentRetriesOf_def)

lemma budget_other:
  assumes "advances k s s'" and "lmp_id q \<noteq> k"
  shows "currentRetriesOf s' (lmp_id q) = currentRetriesOf s (lmp_id q)"
  using assms by (simp add: advances_def currentRetriesOf_def)

lemma mapping_other:
  assumes "advances k s s'"
  shows "fst (getServerLibraryItemId w q s') = fst (getServerLibraryItemId w q s)"
  using assms by (intro getServerLibraryItemId_fst) (simp add: advances_def)

lemma fold_starts_each:
  "\<exists>evs. trace (fold (syncProgressItem w) ps s) = trace s @ evs \<and>
         list_all2 isStartOf ps (filter isItemStart evs)"
proof (induction ps arbitrary: s)
  case Nil
  then show ?case by simp
next
  case (Cons p ps)
  obtain e1 where e1: "trace (syncProgressItem w p s) = trace s @ e1"
      "filter isItemStart e1 = [startEventOf s p]"
    using item_starts by blast
  obtain e2 where e2:
      "trace (fold (syncProgressItem w) ps (syncProgressItem w p s)) =
         trace (syncProgressItem w p s) @ e2"
      "list_all2 isStartOf ps (filter isItemStart e2)"
    using Cons.IH by blast
  have "trace (fold (syncProgressItem w) (p # ps) s) = trace s @ (e1 @ e2)"
    using e1(1) e2(1) by simp
  moreover have "list_all2 isStartOf (p # ps) (filter isItemStart (e1 @ e2))"
    using e1(2) e2(2) by (simp add: isStartOf_startEventOf)
  ultimately show ?case by blast
qed

lemma fold_starts_exact:
  assumes "distinct (map lmp_id ps)"
  shows "\<exists>evs. trace (fold (syncProgressItem w) ps s) = trace s @ evs \<and>
           filter isItemStart evs = map (startEventOf s) ps \<and>
           (\<forall>p \<in> set ps. \<forall>lib.
              currentRetriesOf s (lmp_id p) < maxRetryAttempts \<and>
              fst (getServerLibraryItemId w p s) = Some lib \<longrightarrow> ApiGet lib \<in> set evs)"
  using assms
proof (induction ps arbitrary: s)
  case Nil
  then show ?case by simp
next
  case (Cons p ps)
  let ?s1 = "syncProgressItem w p s"
  have adv: "advances (lmp_id p) s ?s1" by (rule advances_syncProgressItem)
  have other: "lmp_id q \<noteq> lmp_id p" if "q \<in> set ps" for q
  proof
    assume "lmp_id q = lmp_id p"
    then have "lmp_id p \<in> lmp_id ` set ps" using that by (metis imageI)
    then show False using Cons.prems by simp
  qed
  obtain e1 where e1: "trace ?s1 = trace s @ e1" "filter isItemStart e1 = [startEventOf s p]"
    using item_starts by blast
  have d: "distinct (map lmp_id ps)" using Cons.prems by simp
  obtain e2 where e2: "trace (fold (syncProgressItem w) ps ?s1) = trace ?s1 @ e2"
      "filter isItemStart e2 = map (startEventOf ?s1) ps"
      "\<forall>q \<in> set ps. \<forall>lib.
          currentRetriesOf ?s1 (lmp_id q) < maxRetryAttempts \<and>
          fst (getServerLibraryItemId w q ?s1) = Some lib \<longrightarrow> ApiGet lib \<in> set e2"
    using Cons.IH [OF d, of ?s1] by blast
  have same: "map (startEventOf ?s1) ps = map (startEventOf s) ps"
    using startEventOf_other [OF adv other] by simp
  have t: "trace (fold (syncProgressItem w) (p # ps) s) = trace s @ (e1 @ e2)"
    using e1(1) e2(1) by simp
  have st: "filter isItemStart (e1 @ e2) = map (startEventOf s) (p # ps)"
    using e1(2) e2(2) same by simp
  have get: "ApiGet lib \<in> set (e1 @ e2)"
    if q: "q \<in> set (p # ps)" and b: "currentRetriesOf s (lmp_id q) < maxRetryAttempts"
      and m: "fst (getServerLibraryItemId w q s) = Some lib" for q lib
  proof (cases "q \<in> set ps")
    case True
    have "currentRetriesOf ?s1 (lmp_id q) < maxRetryAttempts"
      using b budget_other [OF adv other [OF True]] by simp
    moreover have "fst (getServerLibraryItemId w q ?s1) = Some lib"
      using m mapping_other [OF adv, of w q] by simp
    ultimately have "ApiGet lib \<in> set e2" using e2(3) True by blast
    then show ?thesis by simp
  next
    case False
    with q have qp: "q = p" by simp
    obtain e1' where "trace ?s1 = trace s @ e1'" "ApiGet lib \<in> set e1'"
      using item_fetch [of s p w lib] b m qp by blast
    with e1(1) have "ApiGet lib \<in> set e1" by simp
    then show ?thesis by simp
  qed
  from t st get show ?case by blast
qed

lemma startEventOf_found [simp]:
  "startEventOf (emit e (s\<lparr>isCurrentlySyncing := b\<rparr>)) p = startEventOf s p"
  by (simp add: startEventOf_def currentRetriesOf_def emit_def)

lemma pass_state:
  "currentRetriesOf (emit e (s\<lparr>isCurrentlySyncing := b\<rparr>)) k = currentRetriesOf s k"
  "fst (getServerLibraryItemId w p (emit e (s\<lparr>isCurrentlySyncing := b\<rparr>))) =
     fst (getServerLibraryItemId w p s)"
  "trace (emit e (s\<lparr>isCurrentlySyncing := b\<rparr>)) = trace s @ [e]"
  by (simp_all add: currentRetriesOf_def emit_def getServerLibraryItemId_def split: option.splits)

lemma sameFor_refl [simp]: "sameFor k s s"
  by (simp add: sameFor_def)

lemma sameFor_sym: "sameFor k s t \<Longrightarrow> sameFor k t s"
  by (simp add: sameFor_def)

lemma sameFor_trans: "sameFor k s t \<Longrightarrow> sameFor k t u \<Longrightarrow> sameFor k s u"
  by (simp add: sameFor_def)

lemma sameFor_emit: "sameFor k s t \<Longrightarrow> sameFor k (emit e s) (emit e' t)"
  by (simp add: sameFor_def rowsOf_def emit_def)

lemma sameFor_flag:
  "sameFor k s t \<Longrightarrow> sameFor k (s\<lparr>isCurrentlySyncing := b\<rparr>) (t\<lparr>isCurrentlySyncing := b'\<rparr>)"
  by (simp add: sameFor_def rowsOf_def)

lemma rowsOf_write:
  assumes "\<And>r. lmp_id (f r) = lmp_id r"
  shows "rowsOf k (writeProgress k' f s) =
           map (\<lambda>r. if lmp_id r = k' then f r else r) (rowsOf k s)"
proof -
  have "filter (\<lambda>r. lmp_id r = k) (map (\<lambda>r. if lmp_id r = k' then f r else r) xs) =
        map (\<lambda>r. if lmp_id r = k' then f r else r) (filter (\<lambda>r. lmp_id r = k) xs)" for xs
    by (induction xs) (simp_all add: assms)
  then show ?thesis by (simp add: rowsOf_def writeProgress_def)
qed

lemma sameFor_write:
  assumes "\<And>r. lmp_id (f r) = lmp_id r" and "sameFor k s t"
  shows "sameFor k (writeProgress k' f s) (writeProgress k' f t)"
  using assms(2) rowsOf_write [of f k k' s, OF assms(1)] rowsOf_write [of f k k' t, OF assms(1)]
  by (simp add: sameFor_def) (simp add: writeProgress_def)

lemma sameFor_retry:
  "sameFor k s t \<Longrightarrow>
   sameFor k (s\<lparr>retryAttempts := (retryAttempts s)(k' := v)\<rparr>)
             (t\<lparr>retryAttempts := (retryAttempts t)(k' := v)\<rparr>)"
  by (simp add: sameFor_def rowsOf_def)

lemma sameFor_noteFailure:
  "sameFor k s t \<Longrightarrow> sameFor k (noteFailure k' n m s) (noteFailure k' n m t)"
  unfolding noteFailure_def by (intro sameFor_emit sameFor_retry)

lemma fetch_fst: "fst (fetchServerProgress w lib s) = fst (fetchServerProgress w lib t)"
  by (simp add: fetchServerProgress_def split: get_result.splits option.splits)

lemma update_local:
  assumes "sameFor k s t"
  shows "fst (updateLocalProgressFromServer w lp sp s) =
           fst (updateLocalProgressFromServer w lp sp t) \<and>
         sameFor k (snd (updateLocalProgressFromServer w lp sp s))
                   (snd (updateLocalProgressFromServer w lp sp t))"
proof (cases "realmOpens w \<and> realmWrites w")
  case True
  have "sameFor k (writeProgress (lmp_id lp) (updateFromServerMediaProgress sp) s)
                  (writeProgress (lmp_id lp) (updateFromServerMediaProgress sp) t)"
    by (rule sameFor_write [OF _ assms]) (simp add: updateFromServerMediaProgress_def)
  then show ?thesis using True
    by (simp add: updateLocalProgressFromServer_def sameFor_emit)
next
  case False
  then show ?thesis using assms by (auto simp: updateLocalProgressFromServer_def)
qed

lemma resolve_local:
  assumes "sameFor k s t"
  shows "fst (resolveProgressConflicts w lp lib s) = fst (resolveProgressConflicts w lp lib t) \<and>
         sameFor k (snd (resolveProgressConflicts w lp lib s))
                   (snd (resolveProgressConflicts w lp lib t))"
proof -
  obtain r1 where fs: "fetchServerProgress w lib s = (r1, emit (ApiGet lib) s)"
    using fetch_snd [of w lib s] by (cases "fetchServerProgress w lib s") simp
  have ft: "fetchServerProgress w lib t = (r1, emit (ApiGet lib) t)"
    using fetch_snd [of w lib t] fetch_fst [of w lib s t] fs
    by (cases "fetchServerProgress w lib t") simp
  have a0: "sameFor k (emit (ApiGet lib) s) (emit (ApiGet lib) t)"
    using assms by (rule sameFor_emit)
  have a1: "sameFor k (emit e (emit (ApiGet lib) s)) (emit e (emit (ApiGet lib) t))" for e
    using a0 by (rule sameFor_emit)
  show ?thesis
    using fs ft a0 a1 update_local [OF a1]
    by (auto simp: resolveProgressConflicts_def split: sum.splits option.splits)
qed

lemma send_local:
  assumes "sameFor k s t"
  shows "fst (sendProgressToServer w lp lib s) = fst (sendProgressToServer w lp lib t) \<and>
         sameFor k (snd (sendProgressToServer w lp lib s)) (snd (sendProgressToServer w lp lib t))"
  using assms by (simp add: sendProgressToServer_def sameFor_emit split: patch_result.splits)

lemma mark_local:
  assumes "sameFor k s t"
  shows "fst (markProgressAsSynced w lp s) = fst (markProgressAsSynced w lp t) \<and>
         sameFor k (snd (markProgressAsSynced w lp s)) (snd (markProgressAsSynced w lp t))"
proof (cases "realmOpens w \<and> realmWrites w")
  case True
  have "sameFor k (writeProgress (lmp_id lp) (\<lambda>r. r\<lparr>lastServerSync := Some (dateNow w)\<rparr>) s)
                  (writeProgress (lmp_id lp) (\<lambda>r. r\<lparr>lastServerSync := Some (dateNow w)\<rparr>) t)"
    by (rule sameFor_write [OF _ assms]) simp
  then show ?thesis using True by (simp add: markProgressAsSynced_def sameFor_emit)
next
  case False
  then show ?thesis using assms by (auto simp: markProgressAsSynced_def)
qed

lemma attemptSync_local:
  assumes "sameFor k s t"
  shows "sameFor k (attemptSync w p n lib s) (attemptSync w p n lib t)"
proof -
  obtain r1 s1 where rs: "resolveProgressConflicts w p lib s = (r1, s1)" by force
  obtain r1' t1 where rt: "resolveProgressConflicts w p lib t = (r1', t1)" by force
  from resolve_local [OF assms, of w p lib] rs rt
  have e1: "r1' = r1" and a1: "sameFor k s1 t1" by simp_all
  show ?thesis
  proof (cases r1)
    case (Inl err)
    with rs rt e1 a1 show ?thesis by (simp add: attemptSync_def sameFor_noteFailure)
  next
    case (Inr rp)
    obtain b s2 where ss: "sendProgressToServer w rp lib s1 = (b, s2)" by force
    obtain b' t2 where st: "sendProgressToServer w rp lib t1 = (b', t2)" by force
    from send_local [OF a1, of w rp lib] ss st
    have e2: "b' = b" and a2: "sameFor k s2 t2" by simp_all
    obtain r3 s3 where ms: "markProgressAsSynced w p s2 = (r3, s3)" by force
    obtain r3' t3 where mt: "markProgressAsSynced w p t2 = (r3', t3)" by force
    from mark_local [OF a2, of w p] ms mt
    have e3: "r3' = r3" and a3: "sameFor k s3 t3" by simp_all
    have a4: "sameFor k (emit e (s3\<lparr>retryAttempts := (retryAttempts s3)(lmp_id p := None)\<rparr>))
                        (emit e (t3\<lparr>retryAttempts := (retryAttempts t3)(lmp_id p := None)\<rparr>))" for e
      by (intro sameFor_emit sameFor_retry a3)
    from rs rt e1 Inr ss st e2 ms mt e3 a2 a3 a4 show ?thesis
      by (cases b; cases r3) (simp_all add: attemptSync_def sameFor_noteFailure)
  qed
qed

lemma getServerLibraryItemId_local:
  assumes "sameFor k s t"
  shows "sameFor k (snd (getServerLibraryItemId w p s)) (snd (getServerLibraryItemId w p t))"
  using assms
  by (auto simp: getServerLibraryItemId_def sameFor_emit split: option.splits)

lemma started_local:
  assumes "sameFor (lmp_id p) s t"
  shows "sameFor (lmp_id p) (started p s) (started p t)"
proof -
  have "currentRetriesOf s (lmp_id p) = currentRetriesOf t (lmp_id p)"
    using assms by (simp add: sameFor_def currentRetriesOf_def)
  then show ?thesis using assms by (simp add: started_def sameFor_emit)
qed

lemma syncProgressItem_local:
  assumes "sameFor (lmp_id p) s t"
  shows "sameFor (lmp_id p) (syncProgressItem w p s) (syncProgressItem w p t)"
proof -
  let ?k = "lmp_id p"
  have n: "currentRetriesOf s ?k = currentRetriesOf t ?k"
    using assms by (simp add: sameFor_def currentRetriesOf_def)
  have m: "fst (getServerLibraryItemId w p s) = fst (getServerLibraryItemId w p t)"
    using assms by (intro getServerLibraryItemId_fst) (simp add: sameFor_def)
  show ?thesis
  proof (cases "currentRetriesOf s ?k \<ge> maxRetryAttempts")
    case True
    then have "currentRetriesOf t ?k \<ge> maxRetryAttempts" using n by simp
    with True show ?thesis
      by (simp add: syncProgressItem_exhausted sameFor_emit sameFor_retry assms)
  next
    case False
    then have ls: "currentRetriesOf s ?k < maxRetryAttempts"
      and lt: "currentRetriesOf t ?k < maxRetryAttempts" using n by simp_all
    show ?thesis
    proof (cases "fst (getServerLibraryItemId w p s)")
      case None
      then have nt: "fst (getServerLibraryItemId w p t) = None" using m by simp
      show ?thesis
        unfolding syncProgressItem_unmapped [OF ls None] syncProgressItem_unmapped [OF lt nt]
        by (intro sameFor_emit getServerLibraryItemId_local started_local assms)
    next
      case (Some lib)
      then have st: "fst (getServerLibraryItemId w p t) = Some lib" using m by simp
      show ?thesis
        unfolding syncProgressItem_mapped [OF ls Some] syncProgressItem_mapped [OF lt st] n
        by (intro attemptSync_local started_local assms)
    qed
  qed
qed

lemma advances_sameFor:
  assumes "advances k' s s'" and "k \<noteq> k'"
  shows "sameFor k s s'"
proof -
  have "filter (\<lambda>r. lmp_id r = k) (otherRows k' u) = rowsOf k u" for u
    using assms(2) by (auto simp: otherRows_def rowsOf_def intro: filter_cong)
  then have "rowsOf k s' = rowsOf k s" using assms(1) by (metis advances_def)
  then show ?thesis using assms by (simp add: sameFor_def advances_def)
qed

lemma fold_sameFor_untouched:
  assumes "k \<notin> lmp_id ` set ps"
  shows "sameFor k s (fold (syncProgressItem w) ps s)"
  using assms
proof (induction ps arbitrary: s)
  case Nil
  then show ?case by simp
next
  case (Cons q ps)
  have "sameFor k s (syncProgressItem w q s)"
    using advances_sameFor [OF advances_syncProgressItem, of k q s w] Cons.prems by auto
  moreover have "sameFor k (syncProgressItem w q s) (fold (syncProgressItem w) ps (syncProgressItem w q s))"
    using Cons by simp
  ultimately have "sameFor k s (fold (syncProgressItem w) ps (syncProgressItem w q s))"
    by (rule sameFor_trans)
  then show ?case by simp
qed

lemma fold_each_as_alone:
  assumes "distinct (map lmp_id ps)" and "p \<in> set ps"
  shows "sameFor (lmp_id p) (fold (syncProgressItem w) ps s) (syncProgressItem w p s)"
  using assms
proof (induction ps arbitrary: s)
  case Nil
  then show ?case by simp
next
  case (Cons q ps)
  let ?k = "lmp_id p"
  show ?case
  proof (cases "p = q")
    case True
    have "?k \<notin> lmp_id ` set ps" using Cons.prems(1) True by simp
    then have "sameFor ?k (syncProgressItem w p s)
                 (fold (syncProgressItem w) ps (syncProgressItem w p s))"
      by (rule fold_sameFor_untouched)
    then show ?thesis using True by (simp add: sameFor_sym)
  next
    case False
    then have mem: "p \<in> set ps" using Cons.prems(2) by simp
    have ne: "?k \<noteq> lmp_id q"
    proof
      assume "?k = lmp_id q"
      then have "lmp_id q \<in> lmp_id ` set ps" using mem by (metis imageI)
      then show False using Cons.prems(1) by simp
    qed
    have d: "distinct (map lmp_id ps)" using Cons.prems(1) by simp
    have a: "sameFor ?k (fold (syncProgressItem w) ps (syncProgressItem w q s))
               (syncProgressItem w p (syncProgressItem w q s))"
      by (rule Cons.IH [OF d mem])
    have "sameFor ?k s (syncProgressItem w q s)"
      by (rule advances_sameFor [OF advances_syncProgressItem ne])
    then have "sameFor ?k (syncProgressItem w p s) (syncProgressItem w p (syncProgressItem w q s))"
      by (rule syncProgressItem_local)
    then have "sameFor ?k (syncProgressItem w p (syncProgressItem w q s)) (syncProgressItem w p s)"
      by (rule sameFor_sym)
    with a have "sameFor ?k (fold (syncProgressItem w) ps (syncProgressItem w q s))
                   (syncProgressItem w p s)"
      by (rule sameFor_trans)
    then show ?thesis by simp
  qed
qed

lemma sameFor_pass:
  "sameFor k (emit e (s\<lparr>isCurrentlySyncing := b\<rparr>)) s"
  by (simp add: sameFor_def rowsOf_def emit_def)

section \<open>The claims\<close>

subsection \<open>Conflict resolution on a tie (C1)\<close>

text \<open>
  Claim C1, as the code has it. When the server returns a snapshot whose progress
  fraction equals the local one and whose last-update timestamp is exactly the local
  one, \<open>resolveProgressConflicts\<close> takes the server branch: after the fetch it logs
  "using server" and overwrites the local record from the server snapshot (when the
  Realm write goes through, the updated record is the result; when it does not, the
  error is thrown).
\<close>

theorem C1_tie_uses_server:
  assumes "getResource w lib = GetSuccess sp"
      and "ebookProgress p = mp_ebookProgress sp"
      and "lastUpdate p = mp_lastUpdate sp"
  shows "resolveProgressConflicts w p lib s =
     (if realmOpens w \<and> realmWrites w then
        (Inr (updateFromServerMediaProgress sp p),
         s\<lparr>realm_progress :=
              map (\<lambda>r. if lmp_id r = lmp_id p then updateFromServerMediaProgress sp r else r)
                (realm_progress s),
            trace := trace s @ [ApiGet lib, Log EqualServerMoreRecentUsingServer,
                                WriteFromServer (lmp_id p) sp]\<rparr>)
      else (Inl RealmError,
            s\<lparr>trace := trace s @ [ApiGet lib, Log EqualServerMoreRecentUsingServer]\<rparr>))"
  using assms
  by (simp add: resolveProgressConflicts_def fetchServerProgress_def
        updateLocalProgressFromServer_def writeProgress_def emit_def)

text \<open>
  The tie of the example inputs satisfies the hypotheses of C1.
\<close>

theorem C1_tie_uses_server_witness:
  "resolveProgressConflicts exWorldTie exLocal ''lib1'' exState =
     (if realmOpens exWorldTie \<and> realmWrites exWorldTie then
        (Inr (updateFromServerMediaProgress exServerTie exLocal),
         exState\<lparr>realm_progress :=
              map (\<lambda>r. if lmp_id r = lmp_id exLocal
                        then updateFromServerMediaProgress exServerTie r else r)
                (realm_progress exState),
            trace := trace exState @ [ApiGet ''lib1'', Log EqualServerMoreRecentUsingServer,
                                WriteFromServer (lmp_id exLocal) exServerTie]\<rparr>)
      else (Inl RealmError,
            exState\<lparr>trace := trace exState @
                       [ApiGet ''lib1'', Log EqualServerMoreRecentUsingServer]\<rparr>))"
proof -
  have h1: "getResource exWorldTie ''lib1'' = GetSuccess exServerTie"
    by (simp add: exWorldTie_def)
  have h2: "ebookProgress exLocal = mp_ebookProgress exServerTie"
    by (simp add: exLocal_def exServerTie_def)
  have h3: "lastUpdate exLocal = mp_lastUpdate exServerTie"
    by (simp add: exLocal_def exServerTie_def)
  show ?thesis by (rule C1_tie_uses_server [OF h1 h2 h3])
qed

text \<open>
  C1 as stated (a tie resolves to the local record, which the server does not
  overwrite) fails: on the example tie the server branch is taken and the record
  returned and stored carries the server's location.
\<close>

theorem C1_tie_counterexample:
  "ebookProgress exLocal = mp_ebookProgress exServerTie \<and>
   lastUpdate exLocal = mp_lastUpdate exServerTie \<and>
   trace (snd (resolveProgressConflicts exWorldTie exLocal ''lib1'' exState)) =
     [ApiGet ''lib1'', Log EqualServerMoreRecentUsingServer, WriteFromServer ''p1'' exServerTie] \<and>
   fst (resolveProgressConflicts exWorldTie exLocal ''lib1'' exState) =
     Inr (exLocal\<lparr>ebookLocation := Some ''loc-server''\<rparr>) \<and>
   realm_progress (snd (resolveProgressConflicts exWorldTie exLocal ''lib1'' exState)) =
     [exLocal\<lparr>ebookLocation := Some ''loc-server''\<rparr>]"
  by (simp add: resolveProgressConflicts_def fetchServerProgress_def
        updateLocalProgressFromServer_def updateFromServerMediaProgress_def writeProgress_def
        emit_def exWorldTie_def exWorld_def exServerTie_def exLocal_def exState_def)

subsection \<open>Server ahead (C2)\<close>

text \<open>
  Claim C2, as the code has it. For a sync attempt within the retry budget, on a record
  with a remote mapping, where the server's fraction is strictly greater than the local
  one and Realm is writable: the server's location, fraction, finished flag and
  timestamp are applied onto the local record, and the resolved record (now carrying
  the server's values) is then patched to the server, exactly one patch. Only when that
  patch is answered with success is \<open>lastServerSync\<close> set to the current time and the
  retry entry dropped; otherwise \<open>lastServerSync\<close> is left as it was and the retry
  count is incremented.
\<close>

theorem C2_server_ahead_then_push:
  assumes "currentRetriesOf s (lmp_id p) < maxRetryAttempts"
      and "fst (getServerLibraryItemId w p s) = Some lib"
      and "getResource w lib = GetSuccess sp"
      and "mp_ebookProgress sp > ebookProgress p"
      and "realmWrites w"
      and "d = progressDataOf (updateFromServerMediaProgress sp p)"
      and "ok = (patchResource w lib d = PatchSuccess True)"
  shows "pd_ebookLocation d = (case mp_ebookLocation sp of None \<Rightarrow> '''' | Some l \<Rightarrow> l) \<and>
         pd_ebookProgress d = mp_ebookProgress sp \<and>
         pd_isFinished d = mp_isFinished sp \<and>
         pd_lastUpdate d = mp_lastUpdate sp \<and>
         filter isApiPatch (trace (syncProgressItem w p s)) =
           filter isApiPatch (trace s) @ [ApiPatch lib d] \<and>
         realm_progress (syncProgressItem w p s) =
           map (\<lambda>r. if lmp_id r = lmp_id p
                     then (if ok
                           then (updateFromServerMediaProgress sp r)
                                  \<lparr>lastServerSync := Some (dateNow w)\<rparr>
                           else updateFromServerMediaProgress sp r)
                     else r)
             (realm_progress s) \<and>
         retryAttempts (syncProgressItem w p s) =
           (if ok then (retryAttempts s)(lmp_id p := None)
            else (retryAttempts s)(lmp_id p \<mapsto> currentRetriesOf s (lmp_id p) + 1))"
proof -
  have ro: "realmOpens w" using assms(2) by (rule mapped_realmOpens)
  let ?s0 = "started p s"
  let ?rp = "updateFromServerMediaProgress sp p"
  let ?s1 = "emit (WriteFromServer (lmp_id p) sp)
               (writeProgress (lmp_id p) (updateFromServerMediaProgress sp)
                  (emit (Log (ServerFurtherUpdatingLocal (mp_ebookProgress sp) (ebookProgress p)))
                     (emit (ApiGet lib) ?s0)))"
  have res: "resolveProgressConflicts w p lib ?s0 = (Inr ?rp, ?s1)"
    using assms(3,4,5) ro
    by (simp add: resolveProgressConflicts_def fetchServerProgress_def
          updateLocalProgressFromServer_def)
  let ?s2 = "emit (ApiPatch lib d) ?s1"
  have snd: "sendProgressToServer w ?rp lib ?s1 = (ok, ?s2)"
    using assms(6,7)
    by (cases "patchResource w lib d") (auto simp: sendProgressToServer_def)
  have dfields: "pd_ebookLocation d = (case mp_ebookLocation sp of None \<Rightarrow> '''' | Some l \<Rightarrow> l) \<and>
         pd_ebookProgress d = mp_ebookProgress sp \<and>
         pd_isFinished d = mp_isFinished sp \<and>
         pd_lastUpdate d = mp_lastUpdate sp"
    using assms(6) by (simp add: progressDataOf_def updateFromServerMediaProgress_def)
  have sp: "syncProgressItem w p s = attemptSync w p (currentRetriesOf s (lmp_id p)) lib ?s0"
    by (rule syncProgressItem_mapped [OF assms(1,2)])
  have t0: "filter isApiPatch (trace ?s0) = filter isApiPatch (trace s)"
    by (simp add: started_trace)
  have r0: "realm_progress ?s0 = realm_progress s" "retryAttempts ?s0 = retryAttempts s"
    by (simp_all add: started_def emit_def)
  show ?thesis
  proof (cases ok)
    case True
    have "syncProgressItem w p s =
            emit (Log (SuccessfullySynced lib))
              ((emit (WriteLastServerSync (lmp_id p) (dateNow w))
                 (writeProgress (lmp_id p) (\<lambda>r. r\<lparr>lastServerSync := Some (dateNow w)\<rparr>) ?s2))
               \<lparr>retryAttempts :=
                  (retryAttempts (emit (WriteLastServerSync (lmp_id p) (dateNow w))
                 (writeProgress (lmp_id p) (\<lambda>r. r\<lparr>lastServerSync := Some (dateNow w)\<rparr>) ?s2)))
                    (lmp_id p := None)\<rparr>)"
      using res snd True ro assms(5)
      by (simp add: sp attemptSync_def markProgressAsSynced_def)
    then show ?thesis using True dfields t0 r0
      by (simp add: emit_def writeProgress_def o_def updateFromServerMediaProgress_def
            cong: if_cong)
  next
    case False
    have "syncProgressItem w p s =
            noteFailure (lmp_id p) (currentRetriesOf s (lmp_id p)) (FailedWillRetry (lmp_id p)) ?s2"
      using res snd False by (simp add: sp attemptSync_def)
    then show ?thesis using False dfields t0 r0
      by (simp add: noteFailure_def emit_def writeProgress_def)
  qed
qed

text \<open>
  The server-ahead example satisfies the hypotheses of C2; its patch succeeds.
\<close>

theorem C2_server_ahead_then_push_witness:
  "filter isApiPatch (trace (syncProgressItem exWorldAhead exLocal exState)) =
     filter isApiPatch (trace exState) @
       [ApiPatch ''lib1'' (progressDataOf (updateFromServerMediaProgress exServerAhead exLocal))] \<and>
   realm_progress (syncProgressItem exWorldAhead exLocal exState) =
     [(updateFromServerMediaProgress exServerAhead exLocal)\<lparr>lastServerSync := Some 5000\<rparr>] \<and>
   retryAttempts (syncProgressItem exWorldAhead exLocal exState) ''p1'' = None"
proof -
  have h1: "currentRetriesOf exState (lmp_id exLocal) < maxRetryAttempts"
    by (simp add: currentRetriesOf_def exState_def maxRetryAttempts_def)
  have h2: "fst (getServerLibraryItemId exWorldAhead exLocal exState) = Some ''lib1''"
    by (simp add: getServerLibraryItemId_def exWorldAhead_def exWorld_def exState_def exLocal_def)
  have h3: "getResource exWorldAhead ''lib1'' = GetSuccess exServerAhead"
    by (simp add: exWorldAhead_def)
  have h4: "mp_ebookProgress exServerAhead > ebookProgress exLocal"
    by (simp add: exServerAhead_def exLocal_def)
  have h5: "realmWrites exWorldAhead" by (simp add: exWorldAhead_def exWorld_def)
  have h7: "True = (patchResource exWorldAhead ''lib1''
                (progressDataOf (updateFromServerMediaProgress exServerAhead exLocal)) =
              PatchSuccess True)"
    by (simp add: exWorldAhead_def exWorld_def)
  from C2_server_ahead_then_push [OF h1 h2 h3 h4 h5 refl h7]
  show ?thesis
    by (simp add: exState_def exLocal_def exWorldAhead_def exWorld_def)
qed

text \<open>
  C2 as stated (no push when the server wins) fails: with the server at 50 percent and
  the local record at 20 percent, the attempt fetches, overwrites the local record and
  then patches the server with the server's own values.
\<close>

theorem C2_server_ahead_counterexample:
  "mp_ebookProgress exServerAhead > ebookProgress exLocal \<and>
   trace (syncProgressItem exWorldAhead exLocal exState) =
     [Log (SyncingItem ''item1'' 1), ApiGet ''lib1'',
      Log (ServerFurtherUpdatingLocal (1 / 2) (1 / 5)),
      WriteFromServer ''p1'' exServerAhead,
      ApiPatch ''lib1'' \<lparr>pd_ebookLocation = ''loc-server'', pd_ebookProgress = 1 / 2,
                         pd_lastUpdate = 1060, pd_isFinished = False\<rparr>,
      WriteLastServerSync ''p1'' 5000, Log (SuccessfullySynced ''lib1'')]"
  by (simp add: syncProgressItem_def attemptSync_def currentRetriesOf_def maxRetryAttempts_def
        getServerLibraryItemId_def resolveProgressConflicts_def fetchServerProgress_def
        updateLocalProgressFromServer_def updateFromServerMediaProgress_def
        sendProgressToServer_def progressDataOf_def markProgressAsSynced_def writeProgress_def
        emit_def exWorldAhead_def exServerAhead_def exState_def exLocal_def exWorld_def)

subsection \<open>Manual sync of a record of another server (C3)\<close>

text \<open>
  Claim C3 at a record of server \<open>A\<close> while the app is connected to server \<open>B\<close>:
  \<open>manualSyncProgress\<close> does not fail; it fetches from and patches to the active
  server, marks the record as synced and returns \<open>true\<close>.
\<close>

theorem C3_manual_sync_other_server:
  "serverConnectionConfigId exLocal = Some ''A'' \<and>
   serverConfig exStateOtherServer = Some \<lparr>scc_id = ''B''\<rparr> \<and>
   fst (manualSyncProgress exWorld ''item1'' exStateOtherServer) = Inr True \<and>
   trace (snd (manualSyncProgress exWorld ''item1'' exStateOtherServer)) =
     [Log (SyncingItem ''item1'' 1), ApiGet ''lib1'',
      ApiPatch ''lib1'' \<lparr>pd_ebookLocation = ''loc-local'', pd_ebookProgress = 1 / 5,
                         pd_lastUpdate = 1000, pd_isFinished = False\<rparr>,
      WriteLastServerSync ''p1'' 5000, Log (SuccessfullySynced ''lib1'')]"
  by (simp add: manualSyncProgress_def firstByLocalLibraryItemId_def isNetworkAvailable_def
        syncProgressItem_def attemptSync_def currentRetriesOf_def maxRetryAttempts_def
        getServerLibraryItemId_def resolveProgressConflicts_def fetchServerProgress_def
        sendProgressToServer_def progressDataOf_def markProgressAsSynced_def writeProgress_def
        emit_def exStateOtherServer_def exState_def exLocal_def exWorld_def)

subsection \<open>Records without a server (C5)\<close>




subsection \<open>Retry exhaustion (C6)\<close>

text \<open>
  Claim C6. Start with no retry entry for the record with key \<open>k\<close> and let
  \<open>maxRetryAttempts\<close> triggers in a row meet a transport failure. Then the retry count
  of \<open>k\<close> is \<open>maxRetryAttempts\<close>; the next trigger only logs that the maximum is
  reached, makes no transport call and removes the retry entry; and the trigger after
  that starts again at attempt 1, without backoff sleep, and goes to the transport.
\<close>

theorem C6_retry_exhaustion:
  assumes "retryAttempts s k = None"
      and "length failures = maxRetryAttempts"
      and "\<forall>(w, p) \<in> set failures. lmp_id p = k \<and>
             (\<exists>lib. fst (getServerLibraryItemId w p s) = Some lib \<and> transportFails w lib)"
      and "lmp_id p6 = k" and "lmp_id p7 = k"
      and "fst (getServerLibraryItemId w7 p7 s) = Some lib7"
  shows "maxRetryAttempts = 5 \<and>
         retryAttempts (triggerSeq failures s) k = Some maxRetryAttempts \<and>
         trace (syncProgressItem w6 p6 (triggerSeq failures s)) =
           trace (triggerSeq failures s) @ [Log (MaxRetryReached k)] \<and>
         retryAttempts (syncProgressItem w6 p6 (triggerSeq failures s)) k = None \<and>
         (\<exists>rest. trace (syncProgressItem w7 p7 (syncProgressItem w6 p6 (triggerSeq failures s))) =
            trace (syncProgressItem w6 p6 (triggerSeq failures s)) @
              Log (SyncingItem (localLibraryItemId p7) 1) # ApiGet lib7 # rest)"
proof -
  let ?s5 = "triggerSeq failures s"
  let ?s6 = "syncProgressItem w6 p6 ?s5"
  have c0: "currentRetriesOf s k = 0" using assms(1) by (simp add: currentRetriesOf_def)
  have "currentRetriesOf ?s5 k = currentRetriesOf s k + length failures \<and>
        realm_items ?s5 = realm_items s"
    by (rule triggerSeq_failures [OF assms(3)]) (simp_all add: c0 assms(2))
  then have c5: "currentRetriesOf ?s5 k = maxRetryAttempts" and i5: "realm_items ?s5 = realm_items s"
    using c0 assms(2) by simp_all
  have r5: "retryAttempts ?s5 k = Some maxRetryAttempts"
    using c5 by (auto simp: currentRetriesOf_def maxRetryAttempts_def split: option.splits)
  have ex: "currentRetriesOf ?s5 (lmp_id p6) \<ge> maxRetryAttempts" using c5 assms(4) by simp
  have s6: "?s6 = emit (Log (MaxRetryReached k)) (?s5\<lparr>retryAttempts := (retryAttempts ?s5)(k := None)\<rparr>)"
    using syncProgressItem_exhausted [OF ex, of w6] assms(4) by simp
  have t6: "trace ?s6 = trace ?s5 @ [Log (MaxRetryReached k)]"
    and r6: "retryAttempts ?s6 k = None" and i6: "realm_items ?s6 = realm_items s"
    unfolding s6 using i5 by (simp_all add: emit_def)
  have c6: "currentRetriesOf ?s6 (lmp_id p7) = 0"
    using r6 assms(5) by (simp add: currentRetriesOf_def)
  then have lt: "currentRetriesOf ?s6 (lmp_id p7) < maxRetryAttempts"
    by (simp add: maxRetryAttempts_def)
  have m7: "fst (getServerLibraryItemId w7 p7 ?s6) = Some lib7"
    using assms(6) getServerLibraryItemId_fst [OF i6, of w7 p7] by simp
  have st: "trace (started p7 ?s6) = trace ?s6 @ [Log (SyncingItem (localLibraryItemId p7) 1)]"
    using c6 by (simp add: started_trace)
  have "\<exists>rest. trace (attemptSync w7 p7 0 lib7 (started p7 ?s6)) =
          trace (started p7 ?s6) @ ApiGet lib7 # rest"
    by (rule attemptSync_first_get)
  then have "\<exists>rest. trace (syncProgressItem w7 p7 ?s6) =
            trace ?s6 @ Log (SyncingItem (localLibraryItemId p7) 1) # ApiGet lib7 # rest"
    using syncProgressItem_mapped [OF lt m7] c6 st by simp
  moreover have "maxRetryAttempts = 5" by (simp add: maxRetryAttempts_def)
  ultimately show ?thesis using r5 t6 r6 by simp
qed

text \<open>
  Five failing patches of the example record satisfy the hypotheses of C6.
\<close>

theorem C6_retry_exhaustion_witness:
  "maxRetryAttempts = 5 \<and>
   retryAttempts (triggerSeq exFailures exState) ''p1'' = Some maxRetryAttempts \<and>
   trace (syncProgressItem exWorld exLocal (triggerSeq exFailures exState)) =
     trace (triggerSeq exFailures exState) @ [Log (MaxRetryReached ''p1'')] \<and>
   retryAttempts (syncProgressItem exWorld exLocal (triggerSeq exFailures exState)) ''p1'' = None \<and>
   (\<exists>rest. trace (syncProgressItem exWorld exLocal
                    (syncProgressItem exWorld exLocal (triggerSeq exFailures exState))) =
      trace (syncProgressItem exWorld exLocal (triggerSeq exFailures exState)) @
        Log (SyncingItem (localLibraryItemId exLocal) 1) # ApiGet ''lib1'' # rest)"
proof -
  have h1: "retryAttempts exState ''p1'' = None" by (simp add: exState_def)
  have h2: "length exFailures = maxRetryAttempts"
    by (simp add: exFailures_def maxRetryAttempts_def)
  have h3: "\<forall>(w, p) \<in> set exFailures. lmp_id p = ''p1'' \<and>
             (\<exists>lib. fst (getServerLibraryItemId w p exState) = Some lib \<and> transportFails w lib)"
    by (simp add: exFailures_def exLocal_def exState_def exWorldFailing_def exWorld_def
          getServerLibraryItemId_def transportFails_def)
  have h4: "lmp_id exLocal = ''p1''" by (simp add: exLocal_def)
  have h6: "fst (getServerLibraryItemId exWorld exLocal exState) = Some ''lib1''"
    by (simp add: exLocal_def exState_def exWorld_def getServerLibraryItemId_def)
  show ?thesis by (rule C6_retry_exhaustion [OF h1 h2 h3 h4 h4 h6])
qed

subsection \<open>Backoff delay (C7)\<close>

text \<open>
  Claim C7. \<open>maxRetryAttempts\<close> is 5 and \<open>baseRetryDelay\<close> is 2 seconds; for a retry
  count \<open>n\<close> with \<open>1 \<le> n < maxRetryAttempts\<close> the delay is \<open>baseRetryDelay * 2 ^ n\<close>,
  and \<open>syncProgressItem\<close> sleeps exactly that long before it logs attempt \<open>n + 1\<close> and
  does anything else.
\<close>

theorem C7_retry_delay:
  assumes "retryAttempts s (lmp_id p) = Some n" and "1 \<le> n" and "n < maxRetryAttempts"
  shows "maxRetryAttempts = 5 \<and> baseRetryDelay = 2 \<and>
         calculateRetryDelay n = baseRetryDelay * 2 ^ n \<and>
         (\<exists>rest. trace (syncProgressItem w p s) =
            trace s @ TaskSleep (baseRetryDelay * 2 ^ n) #
              Log (SyncingItem (localLibraryItemId p) (n + 1)) # rest)"
proof -
  have n: "currentRetriesOf s (lmp_id p) = n"
    using assms(1) by (simp add: currentRetriesOf_def)
  then have lt: "currentRetriesOf s (lmp_id p) < maxRetryAttempts" using assms(3) by simp
  have d: "calculateRetryDelay n = baseRetryDelay * 2 ^ n"
    by (simp add: calculateRetryDelay_def)
  from syncProgressItem_after_started [OF lt, of w] obtain rest where
    "trace (syncProgressItem w p s) = trace (started p s) @ rest" by blast
  then have "trace (syncProgressItem w p s) =
      trace s @ TaskSleep (baseRetryDelay * 2 ^ n) #
        Log (SyncingItem (localLibraryItemId p) (n + 1)) # rest"
    using n assms(2) d by (simp add: started_trace)
  then show ?thesis
    using d by (auto simp: maxRetryAttempts_def baseRetryDelay_def)
qed

text \<open>
  A record with three recorded failures satisfies the hypotheses of C7: it waits 16
  seconds.
\<close>

theorem C7_retry_delay_witness:
  "maxRetryAttempts = 5 \<and> baseRetryDelay = 2 \<and>
   calculateRetryDelay 3 = baseRetryDelay * 2 ^ 3 \<and>
   (\<exists>rest. trace (syncProgressItem exWorld exLocal
                    exStateRetry3) =
      trace exStateRetry3 @ TaskSleep (baseRetryDelay * 2 ^ 3) #
        Log (SyncingItem (localLibraryItemId exLocal) (3 + 1)) # rest)"
proof -
  have h1: "retryAttempts exStateRetry3 (lmp_id exLocal) = Some 3"
    by (simp add: exStateRetry3_def exLocal_def)
  have h2: "(1::nat) \<le> 3" by simp
  have h3: "3 < maxRetryAttempts" by (simp add: maxRetryAttempts_def)
  show ?thesis by (rule C7_retry_delay [OF h1 h2 h3])
qed

subsection \<open>No remote mapping (C8)\<close>

text \<open>
  Claim C8. When the local item has no server library item id, \<open>syncProgressItem\<close>
  makes no transport call (no fetch, no patch), leaves the progress table alone, and
  does not increment the retry count of the record: the retry entry is unchanged, or
  removed when the budget was already spent.
\<close>

theorem C8_no_remote_mapping:
  assumes "fst (getServerLibraryItemId w p s) = None"
  shows "filter isApiPatch (trace (syncProgressItem w p s)) = filter isApiPatch (trace s) \<and>
         filter isApiGet (trace (syncProgressItem w p s)) = filter isApiGet (trace s) \<and>
         retryAttempts (syncProgressItem w p s) (lmp_id p) =
           (if currentRetriesOf s (lmp_id p) \<ge> maxRetryAttempts then None
            else retryAttempts s (lmp_id p)) \<and>
         currentRetriesOf (syncProgressItem w p s) (lmp_id p) \<le> currentRetriesOf s (lmp_id p) \<and>
         realm_progress (syncProgressItem w p s) = realm_progress s"
proof (cases "currentRetriesOf s (lmp_id p) \<ge> maxRetryAttempts")
  case True
  then show ?thesis
    by (simp add: syncProgressItem_exhausted emit_def currentRetriesOf_def)
next
  case False
  then have lt: "currentRetriesOf s (lmp_id p) < maxRetryAttempts" by simp
  show ?thesis
    unfolding syncProgressItem_unmapped [OF lt assms]
    using False
    by (simp add: getServerLibraryItemId_def started_def emit_def currentRetriesOf_def
             split: option.splits)
qed

text \<open>
  The example record without any local library item satisfies the hypothesis of C8.
\<close>

theorem C8_no_remote_mapping_witness:
  "filter isApiPatch (trace (syncProgressItem exWorld exLocal exStateUnmapped)) =
     filter isApiPatch (trace exStateUnmapped) \<and>
   filter isApiGet (trace (syncProgressItem exWorld exLocal exStateUnmapped)) =
     filter isApiGet (trace exStateUnmapped) \<and>
   retryAttempts (syncProgressItem exWorld exLocal exStateUnmapped)
       (lmp_id exLocal) =
     (if currentRetriesOf exStateUnmapped (lmp_id exLocal) \<ge> maxRetryAttempts
      then None else retryAttempts exStateUnmapped (lmp_id exLocal)) \<and>
   currentRetriesOf (syncProgressItem exWorld exLocal exStateUnmapped)
       (lmp_id exLocal) \<le> currentRetriesOf exStateUnmapped (lmp_id exLocal) \<and>
   realm_progress (syncProgressItem exWorld exLocal exStateUnmapped) =
     realm_progress exStateUnmapped"
proof -
  have h: "fst (getServerLibraryItemId exWorld exLocal exStateUnmapped) = None"
    by (simp add: getServerLibraryItemId_def exStateUnmapped_def exWorld_def)
  show ?thesis by (rule C8_no_remote_mapping [OF h])
qed

subsection \<open>A pending pass (C9)\<close>

text \<open>
  Claim C9, as the code has it. \<open>syncPendingProgress\<close> returns nothing (\<open>Void\<close>) and
  cannot raise. When no pass is running, the network is available and a server is
  configured, the flag is cleared again at the end and, whatever the transport answers
  for each item, every listed pending item is handed to the per-item pipeline, in the
  order of the listing: the item starts of the pass are one per listed record, each
  naming its record. With primary keys distinct, each start line is the one
  \<open>syncProgressItem\<close> writes for that record in the state before the pass, every
  record within its retry budget and with a remote mapping reaches the fetch, and after
  the pass the rows and the retry entry of every listed record are what a sync of that
  record alone would have left: a failure of one item changes nothing for the others.
  When the listing itself fails, the error is logged and nothing else happens.
\<close>

theorem C9_pass_absorbs_failures:
  assumes "isCurrentlySyncing s = False"
      and "isNetworkAvailable w"
      and "serverConfig s = Some cfg"
  shows "isCurrentlySyncing (snd (syncPendingProgress w s)) = False \<and>
         (case getPendingProgressItems w (scc_id cfg) s of
            Inl err \<Rightarrow>
              trace (snd (syncPendingProgress w s)) = trace s @ [Log (FailedGetPending err)]
          | Inr items \<Rightarrow>
              countEvents isItemStart (snd (syncPendingProgress w s)) =
                countEvents isItemStart s + length items \<and>
              (\<exists>evs. trace (snd (syncPendingProgress w s)) = trace s @ evs \<and>
                 list_all2 isStartOf items (filter isItemStart evs) \<and>
                 (distinct (map lmp_id (realm_progress s)) \<longrightarrow>
                    filter isItemStart evs = map (startEventOf s) items \<and>
                    (\<forall>p \<in> set items.
                       retryAttempts (snd (syncPendingProgress w s)) (lmp_id p) =
                         retryAttempts (syncProgressItem w p s) (lmp_id p) \<and>
                       rowsOf (lmp_id p) (snd (syncPendingProgress w s)) =
                         rowsOf (lmp_id p) (syncProgressItem w p s) \<and>
                       (\<forall>lib. currentRetriesOf s (lmp_id p) < maxRetryAttempts \<and>
                              fst (getServerLibraryItemId w p s) = Some lib \<longrightarrow>
                              ApiGet lib \<in> set evs)))))"
proof (cases "getPendingProgressItems w (scc_id cfg) s")
  case (Inl err)
  with assms show ?thesis
    by (simp add: syncPendingProgress_def performSync_def emit_def)
next
  case (Inr items)
  let ?s0 = "emit (Log (FoundPending (length items))) (s\<lparr>isCurrentlySyncing := True\<rparr>)"
  let ?s' = "snd (syncPendingProgress w s)"
  have s': "?s' = (fold (syncProgressItem w) items ?s0)\<lparr>isCurrentlySyncing := False\<rparr>"
    using assms Inr by (simp add: syncPendingProgress_def performSync_def)
  have tr: "trace ?s' = trace (fold (syncProgressItem w) items ?s0)"
    and fl: "isCurrentlySyncing ?s' = False"
    unfolding s' by simp_all
  have cnt: "countEvents isItemStart ?s' = countEvents isItemStart s + length items"
    unfolding s' by (simp add: fold_itemStarts countEvents_emit)
  obtain e1 where e1: "trace (fold (syncProgressItem w) items ?s0) = trace ?s0 @ e1"
      "list_all2 isStartOf items (filter isItemStart e1)"
    using fold_starts_each by blast
  let ?evs = "Log (FoundPending (length items)) # e1"
  have t1: "trace ?s' = trace s @ ?evs" using tr e1(1) by (simp add: pass_state)
  have l1: "list_all2 isStartOf items (filter isItemStart ?evs)" using e1(2) by simp
  have ex: "filter isItemStart ?evs = map (startEventOf s) items \<and>
            (\<forall>p \<in> set items.
               retryAttempts ?s' (lmp_id p) = retryAttempts (syncProgressItem w p s) (lmp_id p) \<and>
               rowsOf (lmp_id p) ?s' = rowsOf (lmp_id p) (syncProgressItem w p s) \<and>
               (\<forall>lib. currentRetriesOf s (lmp_id p) < maxRetryAttempts \<and>
                  fst (getServerLibraryItemId w p s) = Some lib \<longrightarrow> ApiGet lib \<in> set ?evs))"
    if d: "distinct (map lmp_id (realm_progress s))"
  proof -
    have di: "distinct (map lmp_id items)"
      using Inr d by (auto simp: getPendingProgressItems_def distinct_map_filter split: if_splits)
    then obtain e2 where e2: "trace (fold (syncProgressItem w) items ?s0) = trace ?s0 @ e2"
        "filter isItemStart e2 = map (startEventOf ?s0) items"
        "\<forall>p \<in> set items. \<forall>lib.
           currentRetriesOf ?s0 (lmp_id p) < maxRetryAttempts \<and>
           fst (getServerLibraryItemId w p ?s0) = Some lib \<longrightarrow> ApiGet lib \<in> set e2"
      using fold_starts_exact [of items w ?s0] by blast
    have eq: "e2 = e1" using e1(1) e2(1) by simp
    have alone: "sameFor (lmp_id p) ?s' (syncProgressItem w p s)" if p: "p \<in> set items" for p
    proof -
      have "sameFor (lmp_id p) (fold (syncProgressItem w) items ?s0) (syncProgressItem w p ?s0)"
        by (rule fold_each_as_alone [OF di p])
      moreover have "sameFor (lmp_id p) (syncProgressItem w p ?s0) (syncProgressItem w p s)"
        by (rule syncProgressItem_local [OF sameFor_pass])
      ultimately have "sameFor (lmp_id p) (fold (syncProgressItem w) items ?s0)
                         (syncProgressItem w p s)"
        by (rule sameFor_trans)
      then show ?thesis unfolding s' by (simp add: sameFor_def rowsOf_def)
    qed
    show ?thesis using e2(2,3) eq alone by (simp add: pass_state sameFor_def)
  qed
  from fl cnt t1 l1 ex Inr show ?thesis by auto
qed

text \<open>
  A pass over three pending records whose first patch fails satisfies the hypotheses of
  C9: all three items are started in order, the first is left with one recorded failure
  and unsynced, the second and third reach the fetch and the third ends synced.
\<close>

theorem C9_pass_absorbs_failures_witness:
  "transportFails exWorldFirstFails ''l01'' \<and>
   isCurrentlySyncing (snd (syncPendingProgress exWorldFirstFails exStateThree)) = False \<and>
   filter isItemStart (trace (snd (syncPendingProgress exWorldFirstFails exStateThree))) =
     [Log (SyncingItem ''r01'' 1), Log (SyncingItem ''r02'' 1), Log (SyncingItem ''r03'' 1)] \<and>
   ApiGet ''l02'' \<in> set (trace (snd (syncPendingProgress exWorldFirstFails exStateThree))) \<and>
   ApiGet ''l03'' \<in> set (trace (snd (syncPendingProgress exWorldFirstFails exStateThree))) \<and>
   retryAttempts (snd (syncPendingProgress exWorldFirstFails exStateThree)) ''r01'' = Some 1 \<and>
   rowsOf ''r01'' (snd (syncPendingProgress exWorldFirstFails exStateThree)) = [exRow ''r01''] \<and>
   retryAttempts (snd (syncPendingProgress exWorldFirstFails exStateThree)) ''r03'' = None \<and>
   rowsOf ''r03'' (snd (syncPendingProgress exWorldFirstFails exStateThree)) =
     [(exRow ''r03'')\<lparr>lastServerSync := Some 5000\<rparr>]"
proof -
  let ?items = "map exRow [''r01'', ''r02'', ''r03'']"
  let ?s' = "snd (syncPendingProgress exWorldFirstFails exStateThree)"
  have h1: "isCurrentlySyncing exStateThree = False" by (simp add: exStateThree_def exState_def)
  have h2: "isNetworkAvailable exWorldFirstFails"
    by (simp add: isNetworkAvailable_def exWorldFirstFails_def exWorld_def)
  have h3: "serverConfig exStateThree = Some \<lparr>scc_id = ''A''\<rparr>"
    by (simp add: exStateThree_def exState_def)
  have e: "getPendingProgressItems exWorldFirstFails (scc_id \<lparr>scc_id = ''A''\<rparr>) exStateThree =
             Inr ?items"
    by (simp add: getPendingProgressItems_def pendingPredicate_def exWorldFirstFails_def
          exWorld_def exStateThree_def exRow_def exLocal_def)
  have d: "distinct (map lmp_id (realm_progress exStateThree))"
    by (simp add: exStateThree_def exRow_def)
  have t0: "trace exStateThree = []" by (simp add: exStateThree_def exState_def)
  have f: "transportFails exWorldFirstFails ''l01''"
    by (simp add: transportFails_def exWorldFirstFails_def)
  have b: "currentRetriesOf exStateThree (lmp_id (exRow k)) < maxRetryAttempts" for k
    by (simp add: currentRetriesOf_def exStateThree_def exState_def maxRetryAttempts_def)
  have m2: "fst (getServerLibraryItemId exWorldFirstFails (exRow ''r02'') exStateThree) = Some ''l02''"
    and m3: "fst (getServerLibraryItemId exWorldFirstFails (exRow ''r03'') exStateThree) = Some ''l03''"
    by (simp_all add: getServerLibraryItemId_def exWorldFirstFails_def exWorld_def
          exStateThree_def exRow_def)
  have st: "map (startEventOf exStateThree) ?items =
      [Log (SyncingItem ''r01'' 1), Log (SyncingItem ''r02'' 1), Log (SyncingItem ''r03'' 1)]"
    by (simp add: startEventOf_def currentRetriesOf_def maxRetryAttempts_def exStateThree_def
          exState_def exRow_def)
  have a1: "retryAttempts (syncProgressItem exWorldFirstFails (exRow ''r01'') exStateThree) ''r01'' =
              Some 1 \<and>
            rowsOf ''r01'' (syncProgressItem exWorldFirstFails (exRow ''r01'') exStateThree) =
              [exRow ''r01'']"
    by (simp add: rowsOf_def syncProgressItem_def attemptSync_def noteFailure_def
          currentRetriesOf_def maxRetryAttempts_def getServerLibraryItemId_def
          resolveProgressConflicts_def fetchServerProgress_def sendProgressToServer_def
          progressDataOf_def emit_def exWorldFirstFails_def exWorld_def exStateThree_def
          exState_def exRow_def exLocal_def)
  have a3: "retryAttempts (syncProgressItem exWorldFirstFails (exRow ''r03'') exStateThree) ''r03'' =
              None \<and>
            rowsOf ''r03'' (syncProgressItem exWorldFirstFails (exRow ''r03'') exStateThree) =
              [(exRow ''r03'')\<lparr>lastServerSync := Some 5000\<rparr>]"
    by (simp add: rowsOf_def syncProgressItem_def attemptSync_def noteFailure_def
          currentRetriesOf_def maxRetryAttempts_def getServerLibraryItemId_def
          resolveProgressConflicts_def fetchServerProgress_def sendProgressToServer_def
          progressDataOf_def markProgressAsSynced_def writeProgress_def emit_def
          exWorldFirstFails_def exWorld_def exStateThree_def exState_def exRow_def exLocal_def)
  have id: "lmp_id (exRow k) = k" for k by (simp add: exRow_def)
  from C9_pass_absorbs_failures [OF h1 h2 h3] e d t0
  obtain evs where evs:
    "isCurrentlySyncing ?s' = False"
    "trace ?s' = evs"
    "filter isItemStart evs = map (startEventOf exStateThree) ?items"
    "\<forall>p \<in> set ?items.
        retryAttempts ?s' (lmp_id p) =
          retryAttempts (syncProgressItem exWorldFirstFails p exStateThree) (lmp_id p) \<and>
        rowsOf (lmp_id p) ?s' =
          rowsOf (lmp_id p) (syncProgressItem exWorldFirstFails p exStateThree) \<and>
        (\<forall>lib. currentRetriesOf exStateThree (lmp_id p) < maxRetryAttempts \<and>
           fst (getServerLibraryItemId exWorldFirstFails p exStateThree) = Some lib \<longrightarrow>
           ApiGet lib \<in> set evs)"
    by auto
  have g: "ApiGet ''l02'' \<in> set evs" "ApiGet ''l03'' \<in> set evs"
    using evs(4) b m2 m3 by auto
  have r1: "retryAttempts ?s' ''r01'' = Some 1" "rowsOf ''r01'' ?s' = [exRow ''r01'']"
    using evs(4) a1 id [of "''r01''"] by auto
  have r3: "retryAttempts ?s' ''r03'' = None"
    "rowsOf ''r03'' ?s' = [(exRow ''r03'')\<lparr>lastServerSync := Some 5000\<rparr>]"
    using evs(4) a3 id [of "''r03''"] by auto
  from f evs(1,2,3) st g r1 r3 show ?thesis by simp
qed

text \<open>
  C9 as stated (the pass returns the counts of attempted, succeeded and failed items)
  fails: a pass over no pending item and a pass over one pending item return the same
  value, while the first starts no item and the second starts one.
\<close>

theorem C9_returns_no_counts_counterexample:
  "fst (syncPendingProgress exWorld exStateEmpty) = fst (syncPendingProgress exWorld exState) \<and>
   countEvents isItemStart (snd (syncPendingProgress exWorld exStateEmpty)) = 0 \<and>
   countEvents isItemStart (snd (syncPendingProgress exWorld exState)) = 1"
  by (simp add: countEvents_def syncPendingProgress_def isNetworkAvailable_def performSync_def
        getPendingProgressItems_def pendingPredicate_def
        syncProgressItem_def attemptSync_def currentRetriesOf_def maxRetryAttempts_def
        getServerLibraryItemId_def resolveProgressConflicts_def fetchServerProgress_def
        sendProgressToServer_def progressDataOf_def markProgressAsSynced_def writeProgress_def
        emit_def exStateEmpty_def exState_def exLocal_def exWorld_def)

subsection \<open>Caps of the background passes (C10)\<close>

text \<open>
  Claim C10. A background-processing pass starts at most 10 items and makes at most 10
  fetches and 10 patches; a quick pass at most 3 of each. With primary keys distinct,
  every listed record beyond the cap is left untouched in the progress table and is
  still listed after the pass.
\<close>

theorem C10_background_caps:
  "countEvents isItemStart (snd (performBackgroundSync w s)) \<le> countEvents isItemStart s + 10 \<and>
   countEvents isApiGet (snd (performBackgroundSync w s)) \<le> countEvents isApiGet s + 10 \<and>
   countEvents isApiPatch (snd (performBackgroundSync w s)) \<le> countEvents isApiPatch s + 10 \<and>
   countEvents isItemStart (snd (performQuickSync w s)) \<le> countEvents isItemStart s + 3 \<and>
   countEvents isApiGet (snd (performQuickSync w s)) \<le> countEvents isApiGet s + 3 \<and>
   countEvents isApiPatch (snd (performQuickSync w s)) \<le> countEvents isApiPatch s + 3 \<and>
   (\<forall>cfg items r.
      distinct (map lmp_id (realm_progress s)) \<and> serverConfig s = Some cfg \<and>
      getPendingProgressItems w (scc_id cfg) s = Inr items \<and> r \<in> set (drop 10 items) \<longrightarrow>
      r \<in> set (realm_progress (snd (performBackgroundSync w s))) \<and>
      (\<exists>items'. getPendingProgressItems w (scc_id cfg) (snd (performBackgroundSync w s)) =
                  Inr items' \<and> r \<in> set items')) \<and>
   (\<forall>cfg items r.
      distinct (map lmp_id (realm_progress s)) \<and> serverConfig s = Some cfg \<and>
      getRecentlyUpdatedItems w (scc_id cfg) s = Inr items \<and> r \<in> set (drop 3 items) \<longrightarrow>
      r \<in> set (realm_progress (snd (performQuickSync w s))) \<and>
      (\<exists>items'. getRecentlyUpdatedItems w (scc_id cfg) (snd (performQuickSync w s)) =
                  Inr items' \<and> r \<in> set items'))"
proof -
  have caps:
    "countEvents isItemStart (snd (performBackgroundSync w s)) \<le> countEvents isItemStart s + 10"
    "countEvents isApiGet (snd (performBackgroundSync w s)) \<le> countEvents isApiGet s + 10"
    "countEvents isApiPatch (snd (performBackgroundSync w s)) \<le> countEvents isApiPatch s + 10"
    "countEvents isItemStart (snd (performQuickSync w s)) \<le> countEvents isItemStart s + 3"
    "countEvents isApiGet (snd (performQuickSync w s)) \<le> countEvents isApiGet s + 3"
    "countEvents isApiPatch (snd (performQuickSync w s)) \<le> countEvents isApiPatch s + 3"
    by (rule background_cap quick_cap, rule count_step_itemStart count_step_apiGet
          count_step_apiPatch, simp)+
  have bg: "r \<in> set (realm_progress (snd (performBackgroundSync w s))) \<and>
      (\<exists>items'. getPendingProgressItems w (scc_id cfg) (snd (performBackgroundSync w s)) =
                  Inr items' \<and> r \<in> set items')"
    if h: "distinct (map lmp_id (realm_progress s))" "serverConfig s = Some cfg"
      "getPendingProgressItems w (scc_id cfg) s = Inr items" "r \<in> set (drop 10 items)"
    for cfg items r
  proof -
    let ?Q = "\<lambda>r. (serverConnectionConfigId r = Some (scc_id cfg) \<and>
                  ebookLocation r \<noteq> None \<and> ebookLocation r \<noteq> Some '''') \<and> pendingPredicate r"
    have ro: "realmOpens w" and it: "items = filter ?Q (realm_progress s)"
      using h(3) by (auto simp: getPendingProgressItems_def split: if_splits)
    have "r \<in> set (realm_progress (fold (syncProgressItem w) (take 10 items)
                   (emit (Log (BackgroundFound (length items))) s))) \<and> ?Q r"
      by (rule beyond_cap_row_kept [OF h(1) it h(4)])
    moreover have "r \<in> set (realm_progress s)"
      using in_set_dropD [OF h(4)] it by simp
    ultimately show ?thesis using h(2,3) ro
      by (simp add: performBackgroundSync_def backgroundLoop_fold getPendingProgressItems_def)
  qed
  have qk: "r \<in> set (realm_progress (snd (performQuickSync w s))) \<and>
      (\<exists>items'. getRecentlyUpdatedItems w (scc_id cfg) (snd (performQuickSync w s)) =
                  Inr items' \<and> r \<in> set items')"
    if h: "distinct (map lmp_id (realm_progress s))" "serverConfig s = Some cfg"
      "getRecentlyUpdatedItems w (scc_id cfg) s = Inr items" "r \<in> set (drop 3 items)"
    for cfg items r
  proof -
    let ?Q = "\<lambda>r. ((serverConnectionConfigId r = Some (scc_id cfg) \<and> ebookLocation r \<noteq> None) \<and>
                   lastUpdate r > dateNow w - (60 * 60 * 1000)) \<and> pendingPredicate r"
    have ro: "realmOpens w" and it: "items = filter ?Q (realm_progress s)"
      using h(3) by (auto simp: getRecentlyUpdatedItems_def split: if_splits)
    have ne: "items \<noteq> []" using h(4) by auto
    have "r \<in> set (realm_progress (fold (syncProgressItem w) (take 3 items)
                   (emit (Log (QuickFound (length items))) s))) \<and> ?Q r"
      by (rule beyond_cap_row_kept [OF h(1) it h(4)])
    moreover have "r \<in> set (realm_progress s)"
      using in_set_dropD [OF h(4)] it by simp
    ultimately show ?thesis using h(2,3) ro ne
      by (simp add: performQuickSync_def quickLoop_fold getRecentlyUpdatedItems_def)
  qed
  from caps bg qk show ?thesis by blast
qed

text \<open>
  With eleven pending records, the eleventh is beyond the cap of the background pass and
  the fourth beyond the cap of the quick pass; both are still in the table afterwards.
\<close>

theorem C10_background_caps_witness:
  "countEvents isItemStart (snd (performBackgroundSync exWorld exStateMany)) \<le>
     countEvents isItemStart exStateMany + 10 \<and>
   countEvents isApiPatch (snd (performBackgroundSync exWorld exStateMany)) \<le>
     countEvents isApiPatch exStateMany + 10 \<and>
   countEvents isItemStart (snd (performQuickSync exWorld exStateMany)) \<le>
     countEvents isItemStart exStateMany + 3 \<and>
   length (realm_progress exStateMany) = 11 \<and>
   exRow ''r11'' \<in> set (realm_progress (snd (performBackgroundSync exWorld exStateMany))) \<and>
   exRow ''r04'' \<in> set (realm_progress (snd (performQuickSync exWorld exStateMany)))"
proof -
  let ?ids = "[''r01'', ''r02'', ''r03'', ''r04'', ''r05'', ''r06'',
               ''r07'', ''r08'', ''r09'', ''r10'', ''r11'']"
  have h1: "distinct (map lmp_id (realm_progress exStateMany))"
    by (simp add: exStateMany_def exRow_def)
  have h3: "serverConfig exStateMany = Some \<lparr>scc_id = ''A''\<rparr>"
    by (simp add: exStateMany_def exState_def)
  have h4: "getPendingProgressItems exWorld (scc_id \<lparr>scc_id = ''A''\<rparr>) exStateMany =
              Inr (map exRow ?ids)"
    by (simp add: getPendingProgressItems_def pendingPredicate_def exStateMany_def exRow_def
          exLocal_def exWorld_def)
  have h5: "exRow ''r11'' \<in> set (drop 10 (map exRow ?ids))" by simp
  have h6: "getRecentlyUpdatedItems exWorld (scc_id \<lparr>scc_id = ''A''\<rparr>) exStateMany =
              Inr (map exRow ?ids)"
    by (simp add: getRecentlyUpdatedItems_def pendingPredicate_def exStateMany_def exRow_def
          exLocal_def exWorld_def)
  have h7: "exRow ''r04'' \<in> set (drop 3 (map exRow ?ids))" by simp
  have n: "length (realm_progress exStateMany) = 11" by (simp add: exStateMany_def)
  from C10_background_caps [of exWorld exStateMany] h1 h3 h4 h5 h6 h7 n
  show ?thesis by blast
qed

end
